theory Spec2Isabelle
  imports Main
begin

section \<open>The JavaScript Date object\<close>

text \<open>
  The expiration engine of \<^verbatim>\<open>src/js/qualifications.js\<close> and the date parser of
  \<^verbatim>\<open>src/js/import.js\<close> compute with the built-in \<^verbatim>\<open>Date\<close>. A Date is its time
  value: the milliseconds since 1970-01-01T00:00:00Z, here an \<open>int\<close>. The calendar
  functions are those of the ECMAScript specification (Day, TimeWithinDay,
  DayFromYear, YearFromTime, MonthFromTime, DateFromTime, MakeDay).

  The local-time getters, setters and the constructor \<^verbatim>\<open>new Date(y, m, d)\<close> read the
  host's time zone. It is the parameter \<open>tza\<close> of every function that depends on
  it, the specification's LocalTZA(t, isUTC): the offset of local time from UTC in
  milliseconds, which may change from one instant to another (daylight saving).
  \<open>tza t True\<close> is the offset in force at the UTC time value \<open>t\<close>, and \<open>tza t False\<close> the
  offset by which the host reads the local time value \<open>t\<close>. A host whose offset never
  changes is \<open>fixedZone a\<close>; five hours behind UTC is \<open>fixedZone (- 5 * msPerHour)\<close>.
  TimeClip (the limit of 8.64e15 ms on a valid time value) is written out only where
  the source can reach it, in \<open>parseDate\<close>.
\<close>

definition msPerDay :: int where
  "msPerDay = 86400000"

definition msPerHour :: int where
  "msPerHour = 3600000"

definition Day :: "int \<Rightarrow> int" where
  "Day t = t div msPerDay"

definition TimeWithinDay :: "int \<Rightarrow> int" where
  "TimeWithinDay t = t mod msPerDay"

definition daysInYear :: "int \<Rightarrow> int" where
  "daysInYear y =
     (if y mod 4 \<noteq> 0 then 365
      else if y mod 100 \<noteq> 0 then 366
      else if y mod 400 \<noteq> 0 then 365
      else 366)"

definition dayFromYear :: "int \<Rightarrow> int" where
  "dayFromYear y =
     365 * (y - 1970) + (y - 1969) div 4 - (y - 1901) div 100 + (y - 1601) div 400"

text \<open>
  YearFromTime is the largest year whose first day is not after the given day. The
  estimate \<open>y0\<close> (400 years are 146097 days) is at most one year off, and the two tests
  correct it; \<open>yearFromDay_bounds\<close> below proves the specification's
  characterisation.
\<close>

definition yearFromDay :: "int \<Rightarrow> int" where
  "yearFromDay n =
     (let y0 = 1970 + (400 * n) div 146097
      in if dayFromYear (y0 + 1) \<le> n then y0 + 1
         else if dayFromYear y0 \<le> n then y0
         else y0 - 1)"

definition inLeapYear :: "int \<Rightarrow> int" where
  "inLeapYear y = (if daysInYear y = 366 then 1 else 0)"

text \<open>The day within the year on which month \<open>m\<close> (0 to 11) begins; \<open>l\<close> is 1 in a leap year.\<close>

definition monthStart :: "int \<Rightarrow> int \<Rightarrow> int" where
  "monthStart l m =
     (if m = 0 then 0 else if m = 1 then 31 else if m = 2 then 59 + l
      else if m = 3 then 90 + l else if m = 4 then 120 + l else if m = 5 then 151 + l
      else if m = 6 then 181 + l else if m = 7 then 212 + l else if m = 8 then 243 + l
      else if m = 9 then 273 + l else if m = 10 then 304 + l else 334 + l)"

definition dayWithinYear :: "int \<Rightarrow> int" where
  "dayWithinYear n = n - dayFromYear (yearFromDay n)"

definition monthFromDay :: "int \<Rightarrow> int" where
  "monthFromDay n =
     (let l = inLeapYear (yearFromDay n); d = dayWithinYear n
      in if d < 31 then 0 else if d < 59 + l then 1 else if d < 90 + l then 2
         else if d < 120 + l then 3 else if d < 151 + l then 4 else if d < 181 + l then 5
         else if d < 212 + l then 6 else if d < 243 + l then 7 else if d < 273 + l then 8
         else if d < 304 + l then 9 else if d < 334 + l then 10 else 11)"

definition dateFromDay :: "int \<Rightarrow> int" where
  "dateFromDay n =
     dayWithinYear n - monthStart (inLeapYear (yearFromDay n)) (monthFromDay n) + 1"

text \<open>MakeDay: months outside 0..11 carry into the year, days outside the month carry on.\<close>

definition makeDay :: "int \<Rightarrow> int \<Rightarrow> int \<Rightarrow> int" where
  "makeDay y m d =
     (let ym = y + m div 12; mn = m mod 12
      in dayFromYear ym + monthStart (inLeapYear ym) mn + d - 1)"

definition makeDate :: "int \<Rightarrow> int \<Rightarrow> int" where
  "makeDate day time = day * msPerDay + time"

type_synonym zone = "int \<Rightarrow> bool \<Rightarrow> int"

definition fixedZone :: "int \<Rightarrow> zone" where
  "fixedZone a = (\<lambda>t isUTC. a)"

definition localTime :: "zone \<Rightarrow> int \<Rightarrow> int" where
  "localTime tza t = t + tza t True"

definition utcTime :: "zone \<Rightarrow> int \<Rightarrow> int" where
  "utcTime tza t = t - tza t False"

definition getFullYear :: "zone \<Rightarrow> int \<Rightarrow> int" where
  "getFullYear tza t = yearFromDay (Day (localTime tza t))"

definition getMonth :: "zone \<Rightarrow> int \<Rightarrow> int" where
  "getMonth tza t = monthFromDay (Day (localTime tza t))"

definition getDate :: "zone \<Rightarrow> int \<Rightarrow> int" where
  "getDate tza t = dateFromDay (Day (localTime tza t))"

text \<open>
  \<^verbatim>\<open>new Date(year, month, day)\<close>: local midnight of that day. A year from 0 to 99
  stands for 1900 + year, as the constructor has it.
\<close>

definition newDateYMD :: "zone \<Rightarrow> int \<Rightarrow> int \<Rightarrow> int \<Rightarrow> int" where
  "newDateYMD tza y m d =
     (let yr = (if 0 \<le> y \<and> y \<le> 99 then 1900 + y else y)
      in utcTime tza (makeDate (makeDay yr m d) 0))"

definition setMonth :: "zone \<Rightarrow> int \<Rightarrow> int \<Rightarrow> int" where
  "setMonth tza t m =
     (let lt = localTime tza t
      in utcTime tza (makeDate (makeDay (yearFromDay (Day lt)) m (dateFromDay (Day lt)))
                               (TimeWithinDay lt)))"

definition setDate :: "zone \<Rightarrow> int \<Rightarrow> int \<Rightarrow> int" where
  "setDate tza t d =
     (let lt = localTime tza t
      in utcTime tza (makeDate (makeDay (yearFromDay (Day lt)) (monthFromDay (Day lt)) d)
                               (TimeWithinDay lt)))"

text \<open>
  A date-only string \<^verbatim>\<open>YYYY-MM-DD\<close>, as \<open>parseDate\<close> returns it and as a date input
  field holds it: year, month (1 to 12) and day. \<^verbatim>\<open>new Date(string)\<close> reads such a
  string as midnight UTC, and \<^verbatim>\<open>toISOString().split('T')[0]\<close> prints the UTC date of
  a time value.
\<close>

datatype isodate = IsoDate (iyear: int) (imonth: int) (iday: int)

definition daysInMonth :: "int \<Rightarrow> int \<Rightarrow> int" where
  "daysInMonth l m =
     (if m = 1 then 28 + l
      else if m = 3 \<or> m = 5 \<or> m = 8 \<or> m = 10 then 30
      else 31)"

definition validDate :: "isodate \<Rightarrow> bool" where
  "validDate s \<longleftrightarrow>
     1 \<le> imonth s \<and> imonth s \<le> 12 \<and> 1 \<le> iday s \<and>
     iday s \<le> daysInMonth (inLeapYear (iyear s)) (imonth s - 1)"

definition dateFromISO :: "isodate \<Rightarrow> int" where
  "dateFromISO s = makeDate (makeDay (iyear s) (imonth s - 1) (iday s)) 0"

definition toISODate :: "int \<Rightarrow> isodate" where
  "toISODate t = IsoDate (yearFromDay (Day t)) (monthFromDay (Day t) + 1) (dateFromDay (Day t))"

text \<open>\<^verbatim>\<open>new Date(value)\<close> of a date string or of \<^verbatim>\<open>null\<close>; \<^verbatim>\<open>null\<close> converts to the number 0.\<close>

definition newDate :: "isodate option \<Rightarrow> int" where
  "newDate v = (case v of None \<Rightarrow> 0 | Some s \<Rightarrow> dateFromISO s)"

section \<open>Qualification types and the expiration engine\<close>

text \<open>
  \<^verbatim>\<open>src/js/qualifications.js\<close>. A qualification type carries the attributes that
  \<open>calculateExpiration\<close> reads; an attribute that the JavaScript object does not have is
  \<open>None\<close> (\<open>False\<close> for the flag \<open>easAware\<close>). The field \<open>qid\<close> is the source's \<^verbatim>\<open>id\<close>.
  \<open>OTHER_CYCLE\<close> stands for any \<^verbatim>\<open>cycleType\<close> string outside \<^verbatim>\<open>CYCLE_TYPES\<close>, the
  \<^verbatim>\<open>default\<close> branch of the switch.
\<close>

datatype cycle = CALENDAR_WINDOW | FISCAL_YEAR | ROLLING | ONE_TIME | OTHER_CYCLE

datatype monthDay = MonthDay (month: int) (day: int)

record qualType =
  qid :: string
  cycleType :: cycle
  windowStart :: "monthDay option"
  windowEnd :: "monthDay option"
  expirationMonths :: "int option"
  easAware :: bool

datatype js_error = TypeError | RangeError | ConstraintError | InvalidBackup

definition mkType :: "string \<Rightarrow> cycle \<Rightarrow> qualType" where
  "mkType i c = \<lparr>qid = i, cycleType = c, windowStart = None, windowEnd = None,
                 expirationMonths = None, easAware = False\<rparr>"

definition mkWindow :: "string \<Rightarrow> int \<times> int \<Rightarrow> int \<times> int \<Rightarrow> qualType" where
  "mkWindow i s e = (mkType i CALENDAR_WINDOW)
     \<lparr>windowStart := Some (MonthDay (fst s) (snd s)), windowEnd := Some (MonthDay (fst e) (snd e))\<rparr>"

definition mkRolling :: "string \<Rightarrow> int \<Rightarrow> bool \<Rightarrow> qualType" where
  "mkRolling i n a = (mkType i ROLLING)\<lparr>expirationMonths := Some n, easAware := a\<rparr>"

text \<open>\<^verbatim>\<open>DEFAULT_QUAL_TYPES\<close>, category after category in the order of the source.\<close>

definition DEFAULT_QUAL_TYPES :: "qualType list" where
  "DEFAULT_QUAL_TYPES =
    [mkWindow ''pft'' (1, 1) (6, 30),
     mkWindow ''cft'' (7, 1) (12, 31),
     mkWindow ''bca'' (1, 1) (12, 31),
     mkType ''rifle_qual'' FISCAL_YEAR,
     mkType ''pistol_qual'' FISCAL_YEAR,
     mkType ''annual_training'' FISCAL_YEAR,
     mkType ''cyber_awareness'' FISCAL_YEAR,
     mkType ''sharp'' FISCAL_YEAR,
     mkType ''suicide_prevention'' FISCAL_YEAR,
     mkRolling ''license_hmmwv'' 48 True,
     mkRolling ''license_7ton'' 48 True,
     mkRolling ''license_forklift'' 48 True,
     mkRolling ''license_lav'' 48 True,
     mkType ''mcmap_tan'' ONE_TIME,
     mkType ''mcmap_gray'' ONE_TIME,
     mkType ''mcmap_green'' ONE_TIME,
     mkType ''mcmap_brown'' ONE_TIME,
     mkType ''mcmap_black'' ONE_TIME,
     mkRolling ''swim_qual'' 24 False,
     mkRolling ''pha'' 12 False,
     mkRolling ''dental'' 12 False,
     mkRolling ''hiv'' 24 False,
     mkType ''hearing'' FISCAL_YEAR,
     mkType ''corporal_course'' ONE_TIME,
     mkType ''sergeants_course'' ONE_TIME,
     mkType ''career_course'' ONE_TIME,
     mkType ''advanced_course'' ONE_TIME]"

definition getQualificationType :: "string \<Rightarrow> qualType option" where
  "getQualificationType i = find (\<lambda>q. qid q = i) DEFAULT_QUAL_TYPES"

definition getFiscalYear :: "zone \<Rightarrow> int \<Rightarrow> int" where
  "getFiscalYear tza d =
     (let mon = getMonth tza d; year = getFullYear tza d
      in if mon \<ge> 9 then year + 1 else year)"

text \<open>
  \<open>calculateExpiration\<close> takes the completion date and the Marine's EAS as the date
  strings its callers pass (or \<^verbatim>\<open>null\<close>) and returns a Date (\<open>Some\<close> of its time value)
  or \<^verbatim>\<open>null\<close>. Reading \<^verbatim>\<open>windowEnd.month\<close> of a type without \<^verbatim>\<open>windowEnd\<close> throws a
  TypeError. \<^verbatim>\<open>expirationMonths || 12\<close> takes 12 for an absent or zero attribute.
\<close>

definition calculateExpiration ::
  "zone \<Rightarrow> qualType \<Rightarrow> isodate option \<Rightarrow> isodate option \<Rightarrow> js_error + int option" where
  "calculateExpiration tza qualType completionDate marineEas =
     (let completion = newDate completionDate in
      case cycleType qualType of
        ONE_TIME \<Rightarrow> Inr None
      | CALENDAR_WINDOW \<Rightarrow>
          (case windowEnd qualType of
             None \<Rightarrow> Inl TypeError
           | Some we \<Rightarrow>
               (let endMonth = month we - 1;
                    endDay = day we;
                    expYear = getFullYear tza completion;
                    windowEndDate = newDateYMD tza expYear endMonth endDay;
                    expYear' = (if completion \<le> windowEndDate then expYear + 1 else expYear + 2)
                in Inr (Some (newDateYMD tza expYear' endMonth endDay))))
      | FISCAL_YEAR \<Rightarrow>
          (let fy = getFiscalYear tza completion
           in Inr (Some (newDateYMD tza (fy + 1) 8 30)))
      | ROLLING \<Rightarrow>
          (let months = (case expirationMonths qualType of
                           None \<Rightarrow> 12
                         | Some n \<Rightarrow> if n = 0 then 12 else n);
               expiration = setMonth tza completion (getMonth tza completion + months)
           in case marineEas of
                Some e \<Rightarrow>
                  if easAware qualType
                  then (let eas = dateFromISO e
                        in if eas < expiration then Inr (Some eas) else Inr (Some expiration))
                  else Inr (Some expiration)
              | None \<Rightarrow> Inr (Some expiration))
      | OTHER_CYCLE \<Rightarrow> Inr None)"

subsection \<open>Qualification records and their status\<close>

text \<open>
  A qualification record. \<open>q_id\<close> is the store-assigned \<^verbatim>\<open>id\<close>, \<open>q_type\<close> the source's
  \<^verbatim>\<open>type\<close>. \<open>expirationDate\<close> is the time value of the stored Date (or of the
  timestamp string that a JSON backup turns it into); time stamps are time values too.
\<close>

record qualification =
  q_id :: "nat option"
  marineId :: "nat option"
  q_type :: string
  completionDate :: "isodate option"
  expirationDate :: "int option"
  score :: "int option"
  q_source :: string
  q_createdAt :: "int option"
  q_updatedAt :: "int option"

text \<open>
  The \<^verbatim>\<open>status\<close> strings that \<open>getQualificationStatus\<close> returns: \<^verbatim>\<open>'expiring_soon'\<close>
  is the 30-day warning (label "Expires < 30 Days"), \<^verbatim>\<open>'expiring'\<close> the 90-day one. The
  function calls \<^verbatim>\<open>new Date()\<close> three times in a row, for \<^verbatim>\<open>now\<close> and for the two
  dates that it moves ahead; the three readings of the clock are taken to be one
  instant, the time value \<open>now\<close>.
\<close>

datatype statusKind = missing | current | expired | expiring_soon | expiring

definition getQualificationStatus :: "zone \<Rightarrow> int \<Rightarrow> qualification \<Rightarrow> statusKind" where
  "getQualificationStatus tza now q =
     (case completionDate q of
        None \<Rightarrow> missing
      | Some _ \<Rightarrow>
          (case expirationDate q of
             None \<Rightarrow> current
           | Some expiration \<Rightarrow>
               (let thirtyDaysOut = setDate tza now (getDate tza now + 30);
                    ninetyDaysOut = setDate tza now (getDate tza now + 90)
                in if expiration < now then expired
                   else if expiration \<le> thirtyDaysOut then expiring_soon
                   else if expiration \<le> ninetyDaysOut then expiring
                   else current)))"

section \<open>Ranks\<close>

text \<open>Strings are ASCII: \<^verbatim>\<open>toUpperCase\<close> maps a to z, \<^verbatim>\<open>trim\<close> strips ASCII white space.\<close>

definition toUpperChar :: "char \<Rightarrow> char" where
  "toUpperChar c =
     (let n = (of_char c :: nat) in if 97 \<le> n \<and> n \<le> 122 then char_of (n - 32) else c)"

definition toUpperCase :: "string \<Rightarrow> string" where
  "toUpperCase s = map toUpperChar s"

definition isSpace :: "char \<Rightarrow> bool" where
  "isSpace c \<longleftrightarrow> (let n = (of_char c :: nat) in n = 32 \<or> (9 \<le> n \<and> n \<le> 13))"

definition trim :: "string \<Rightarrow> string" where
  "trim s = rev (dropWhile isSpace (rev (dropWhile isSpace s)))"

definition RANK_MAPPINGS :: "(string \<times> string) list" where
  "RANK_MAPPINGS =
    [(''PVT'', ''Pvt''), (''PRIVATE'', ''Pvt''), (''E-1'', ''Pvt''), (''E1'', ''Pvt''),
     (''PFC'', ''PFC''), (''PRIVATE FIRST CLASS'', ''PFC''), (''E-2'', ''PFC''), (''E2'', ''PFC''),
     (''LCPL'', ''LCpl''), (''LANCE CORPORAL'', ''LCpl''), (''E-3'', ''LCpl''), (''E3'', ''LCpl''),
     (''CPL'', ''Cpl''), (''CORPORAL'', ''Cpl''), (''E-4'', ''Cpl''), (''E4'', ''Cpl''),
     (''SGT'', ''Sgt''), (''SERGEANT'', ''Sgt''), (''E-5'', ''Sgt''), (''E5'', ''Sgt''),
     (''SSGT'', ''SSgt''), (''STAFF SERGEANT'', ''SSgt''), (''E-6'', ''SSgt''), (''E6'', ''SSgt''),
     (''GYSGT'', ''GySgt''), (''GUNNERY SERGEANT'', ''GySgt''), (''E-7'', ''GySgt''),
     (''E7'', ''GySgt''),
     (''MSGT'', ''MSgt''), (''MASTER SERGEANT'', ''MSgt''), (''E-8'', ''MSgt''), (''E8'', ''MSgt''),
     (''FIRST SGT'', ''FirstSgt''), (''FIRST SERGEANT'', ''FirstSgt''), (''1STSGT'', ''FirstSgt''),
     (''MGYSGT'', ''MGySgt''), (''MASTER GUNNERY SERGEANT'', ''MGySgt''), (''E-9'', ''MGySgt''),
     (''E9'', ''MGySgt''),
     (''SGTMAJ'', ''SgtMaj''), (''SERGEANT MAJOR'', ''SgtMaj''),
     (''WO1'', ''WO''), (''WO-1'', ''WO''), (''WARRANT OFFICER'', ''WO''),
     (''CWO2'', ''CWO2''), (''CWO-2'', ''CWO2''), (''CHIEF WARRANT OFFICER 2'', ''CWO2''),
     (''CWO3'', ''CWO3''), (''CWO-3'', ''CWO3''), (''CHIEF WARRANT OFFICER 3'', ''CWO3''),
     (''CWO4'', ''CWO4''), (''CWO-4'', ''CWO4''), (''CHIEF WARRANT OFFICER 4'', ''CWO4''),
     (''CWO5'', ''CWO5''), (''CWO-5'', ''CWO5''), (''CHIEF WARRANT OFFICER 5'', ''CWO5''),
     (''2NDLT'', ''2ndLt''), (''2ND LT'', ''2ndLt''), (''SECOND LIEUTENANT'', ''2ndLt''),
     (''O-1'', ''2ndLt''), (''O1'', ''2ndLt''),
     (''1STLT'', ''1stLt''), (''1ST LT'', ''1stLt''), (''FIRST LIEUTENANT'', ''1stLt''),
     (''O-2'', ''1stLt''), (''O2'', ''1stLt''),
     (''CAPT'', ''Capt''), (''CAPTAIN'', ''Capt''), (''O-3'', ''Capt''), (''O3'', ''Capt''),
     (''MAJ'', ''Maj''), (''MAJOR'', ''Maj''), (''O-4'', ''Maj''), (''O4'', ''Maj''),
     (''LTCOL'', ''LtCol''), (''LT COL'', ''LtCol''), (''LIEUTENANT COLONEL'', ''LtCol''),
     (''O-5'', ''LtCol''), (''O5'', ''LtCol''),
     (''COL'', ''Col''), (''COLONEL'', ''Col''), (''O-6'', ''Col''), (''O6'', ''Col'')]"

definition RANK_ORDER :: "string list" where
  "RANK_ORDER =
    [''Pvt'', ''PFC'', ''LCpl'', ''Cpl'', ''Sgt'', ''SSgt'', ''GySgt'', ''MSgt'', ''FirstSgt'',
     ''MGySgt'', ''SgtMaj'',
     ''WO'', ''CWO2'', ''CWO3'', ''CWO4'', ''CWO5'',
     ''2ndLt'', ''1stLt'', ''Capt'', ''Maj'', ''LtCol'', ''Col'']"

definition normalizeRank :: "string \<Rightarrow> string" where
  "normalizeRank rank =
     (if rank = [] then []
      else (let upperRank = trim (toUpperCase rank)
            in case map_of RANK_MAPPINGS upperRank of
                 Some r \<Rightarrow> r
               | None \<Rightarrow> if rank \<in> set RANK_ORDER then rank else rank))"

text \<open>\<^verbatim>\<open>Array.prototype.indexOf\<close>: the first position of the element, or -1.\<close>

fun indexOf :: "'a list \<Rightarrow> 'a \<Rightarrow> int" where
  "indexOf [] x = - 1"
| "indexOf (y # ys) x =
     (if y = x then 0 else (let i = indexOf ys x in if i = - 1 then - 1 else i + 1))"

definition compareRanks :: "string \<Rightarrow> string \<Rightarrow> int" where
  "compareRanks rankA rankB =
     (let normalizedA = normalizeRank rankA;
          normalizedB = normalizeRank rankB;
          indexA = indexOf RANK_ORDER normalizedA;
          indexB = indexOf RANK_ORDER normalizedB;
          orderA = (if indexA = - 1 then 999 else indexA);
          orderB = (if indexB = - 1 then 999 else indexB)
      in orderA - orderB)"


section \<open>Parsing dates\<close>

text \<open>
  \<^verbatim>\<open>src/js/import.js\<close>. A spreadsheet cell is absent, a string, a number, a boolean or
  a Date object (\<open>DateObj None\<close> is an Invalid Date). A number is integer-valued (an
  identifier, a score, the serial day of a date); a cell that holds a fraction is
  outside the model.

  What the engine alone decides is a parameter of the host, gathered with its time zone
  in one record: \<open>nativeParse\<close> is \<^verbatim>\<open>new Date(string)\<close> on a string outside the five
  formats of \<open>parseDate\<close> (\<open>None\<close> for an Invalid Date), \<open>dateToString\<close> is
  \<^verbatim>\<open>String(value)\<close> of a Date object, and \<open>numberToString\<close> is \<^verbatim>\<open>String(value)\<close> of a
  number from \<open>2 ^ 53\<close> on, where the digits printed are those of the nearest double,
  in exponent notation from \<open>1e21\<close> on. Below \<open>2 ^ 53\<close> an integer prints as its decimal
  digits, which \<open>jsString\<close> writes out.
\<close>

datatype cell = Undefined | Str string | Num int | Bool bool | DateObj "int option"

record host =
  LocalTZA :: zone
  nativeParse :: "string \<Rightarrow> int option"
  dateToString :: "int option \<Rightarrow> string"
  numberToString :: "int \<Rightarrow> string"

text \<open>The decimal digits of a number that is not negative.\<close>

function showDigits :: "int \<Rightarrow> string" where
  "showDigits n =
     (if n < 10 then [char_of (48 + n)] else showDigits (n div 10) @ [char_of (48 + n mod 10)])"
  by pat_completeness auto
termination
  by (relation "measure nat") auto

text \<open>\<^verbatim>\<open>String(value)\<close>\<close>

definition jsString :: "host \<Rightarrow> cell \<Rightarrow> string" where
  "jsString h v =
     (case v of
        Undefined \<Rightarrow> ''undefined''
      | Str s \<Rightarrow> s
      | Num n \<Rightarrow>
          if \<bar>n\<bar> < 9007199254740992
          then (if n < 0 then CHR ''-'' # showDigits (- n) else showDigits n)
          else numberToString h n
      | Bool b \<Rightarrow> (if b then ''true'' else ''false'')
      | DateObj t \<Rightarrow> dateToString h t)"

text \<open>\<^verbatim>\<open>!value\<close>: absent, the empty string, zero and \<^verbatim>\<open>false\<close> are falsy.\<close>

definition falsy :: "cell \<Rightarrow> bool" where
  "falsy v =
     (case v of
        Undefined \<Rightarrow> True
      | Str s \<Rightarrow> s = []
      | Num n \<Rightarrow> n = 0
      | Bool b \<Rightarrow> \<not> b
      | DateObj _ \<Rightarrow> False)"

definition isDigit :: "char \<Rightarrow> bool" where
  "isDigit c \<longleftrightarrow> (let n = (of_char c :: nat) in 48 \<le> n \<and> n \<le> 57)"

definition isAlpha :: "char \<Rightarrow> bool" where
  "isAlpha c \<longleftrightarrow>
     (let n = (of_char c :: nat) in (65 \<le> n \<and> n \<le> 90) \<or> (97 \<le> n \<and> n \<le> 122))"

definition digitVal :: "char \<Rightarrow> nat" where
  "digitVal c = of_char c - 48"

text \<open>The number that a string of decimal digits denotes.\<close>

definition toNumber :: "string \<Rightarrow> int" where
  "toNumber s = int (foldl (\<lambda>a c. 10 * a + digitVal c) 0 s)"

text \<open>A string made of digits only, of \<open>lo\<close> to \<open>hi\<close> of them: \<^verbatim>\<open>\d{lo,hi}\<close>.\<close>

definition isDigits :: "nat \<Rightarrow> nat \<Rightarrow> string \<Rightarrow> bool" where
  "isDigits lo hi s \<longleftrightarrow> lo \<le> length s \<and> length s \<le> hi \<and> list_all isDigit s"

fun splitOn :: "char \<Rightarrow> string \<Rightarrow> string list" where
  "splitOn c [] = [[]]"
| "splitOn c (x # xs) =
     (if x = c then [] # splitOn c xs
      else (case splitOn c xs of [] \<Rightarrow> [[x]] | h # t \<Rightarrow> (x # h) # t))"

text \<open>
  The five regular expressions of \<open>parseDate\<close>, each returning its three groups:
  \<^verbatim>\<open>^(\d{4})-(\d{1,2})-(\d{1,2})$\<close>, \<^verbatim>\<open>^(\d{1,2})\/(\d{1,2})\/(\d{4})$\<close>,
  \<^verbatim>\<open>^(\d{1,2})\/(\d{1,2})\/(\d{2})$\<close>, \<^verbatim>\<open>^(\d{1,2})([A-Z]{3})(\d{4})$\<close> and
  \<^verbatim>\<open>^(\d{1,2})\s+([A-Z]{3})\s+(\d{4})$\<close>, the last two ignoring case.
\<close>

definition matchSeparated ::
  "char \<Rightarrow> nat \<times> nat \<Rightarrow> nat \<times> nat \<Rightarrow> nat \<times> nat \<Rightarrow> string \<Rightarrow> (string \<times> string \<times> string) option"
  where
  "matchSeparated sep r1 r2 r3 str =
     (case splitOn sep str of
        [a, b, c] \<Rightarrow>
          if isDigits (fst r1) (snd r1) a \<and> isDigits (fst r2) (snd r2) b \<and>
             isDigits (fst r3) (snd r3) c
          then Some (a, b, c) else None
      | _ \<Rightarrow> None)"

definition matchISO :: "string \<Rightarrow> (string \<times> string \<times> string) option" where
  "matchISO = matchSeparated CHR ''-'' (4, 4) (1, 2) (1, 2)"

definition matchUS :: "string \<Rightarrow> (string \<times> string \<times> string) option" where
  "matchUS = matchSeparated CHR ''/'' (1, 2) (1, 2) (4, 4)"

definition matchUSShort :: "string \<Rightarrow> (string \<times> string \<times> string) option" where
  "matchUSShort = matchSeparated CHR ''/'' (1, 2) (1, 2) (2, 2)"

definition matchMilitary :: "string \<Rightarrow> (string \<times> string \<times> string) option" where
  "matchMilitary str =
     (let a = takeWhile isDigit str;
          r = dropWhile isDigit str;
          b = take 3 r;
          c = drop 3 r
      in if isDigits 1 2 a \<and> length b = 3 \<and> list_all isAlpha b \<and> isDigits 4 4 c
         then Some (a, b, c) else None)"

definition matchMilitarySpaced :: "string \<Rightarrow> (string \<times> string \<times> string) option" where
  "matchMilitarySpaced str =
     (let a = takeWhile isDigit str;
          r1 = dropWhile isDigit str;
          r2 = dropWhile isSpace r1;
          b = take 3 r2;
          r3 = drop 3 r2;
          c = dropWhile isSpace r3
      in if isDigits 1 2 a \<and> takeWhile isSpace r1 \<noteq> [] \<and> length b = 3 \<and> list_all isAlpha b \<and>
            takeWhile isSpace r3 \<noteq> [] \<and> isDigits 4 4 c
         then Some (a, b, c) else None)"

definition months :: "(string \<times> int) list" where
  "months =
    [(''JAN'', 0), (''FEB'', 1), (''MAR'', 2), (''APR'', 3), (''MAY'', 4), (''JUN'', 5),
     (''JUL'', 6), (''AUG'', 7), (''SEP'', 8), (''OCT'', 9), (''NOV'', 10), (''DEC'', 11)]"

text \<open>
  \<open>parseDate\<close> returns a date string or \<^verbatim>\<open>null\<close>; \<^verbatim>\<open>toISOString\<close> of an Invalid Date
  throws a RangeError. A number is the serial day of a spreadsheet; the product is
  exact in double arithmetic wherever it is a valid time value.
\<close>

definition parseDate :: "host \<Rightarrow> cell \<Rightarrow> js_error + isodate option" where
  "parseDate h value =
     (if falsy value then Inr None
      else case value of
        DateObj None \<Rightarrow> Inl RangeError
      | DateObj (Some t) \<Rightarrow> Inr (Some (toISODate t))
      | Num n \<Rightarrow>
          (let t = (n - 25569) * 86400 * 1000
           in if 8640000000000000 < \<bar>t\<bar> then Inl RangeError
              else Inr (Some (toISODate t)))
      | _ \<Rightarrow>
          (let str = trim (jsString h value); tza = LocalTZA h in
            case matchISO str of
              Some (y, m, d) \<Rightarrow>
                Inr (Some (toISODate (newDateYMD tza (toNumber y) (toNumber m - 1) (toNumber d))))
            | None \<Rightarrow>
            (case matchUS str of
              Some (m, d, y) \<Rightarrow>
                Inr (Some (toISODate (newDateYMD tza (toNumber y) (toNumber m - 1) (toNumber d))))
            | None \<Rightarrow>
            (case matchUSShort str of
              Some (m, d, yy) \<Rightarrow>
                (let year = toNumber yy;
                     year' = (if year > 50 then 1900 + year else 2000 + year)
                 in Inr (Some (toISODate (newDateYMD tza year' (toNumber m - 1) (toNumber d)))))
            | None \<Rightarrow>
            (case (case matchMilitary str of
                     Some g \<Rightarrow> Some g
                   | None \<Rightarrow> matchMilitarySpaced str) of
              Some (d, mon, y) \<Rightarrow>
                (case map_of months (toUpperCase mon) of
                   Some mon' \<Rightarrow>
                     Inr (Some (toISODate (newDateYMD tza (toNumber y) mon' (toNumber d))))
                 | None \<Rightarrow>
                     (case nativeParse h str of
                        Some t \<Rightarrow> Inr (Some (toISODate t))
                      | None \<Rightarrow> Inr None))
            | None \<Rightarrow>
                (case nativeParse h str of
                   Some t \<Rightarrow> Inr (Some (toISODate t))
                 | None \<Rightarrow> Inr None))))))"


section \<open>The store\<close>

text \<open>
  \<^verbatim>\<open>src/js/storage.js\<close>. The object stores \<^verbatim>\<open>marines\<close> and \<^verbatim>\<open>qualifications\<close> have
  auto-incremented keys, which start at 1, and \<^verbatim>\<open>getAll\<close> returns the records in key
  order; a store is the list of its records in that order with the next key of its
  generator. The store \<^verbatim>\<open>marines\<close> has a unique index on \<^verbatim>\<open>edipi\<close>. A Marine record is a
  record scheme: the fields that the storage and import code never touch (middle
  initial, billet, phone, notes and so on) are its extension. \<open>m_id\<close>, \<open>m_status\<close>,
  \<open>m_createdAt\<close> and \<open>m_updatedAt\<close> are the source's \<^verbatim>\<open>id\<close>, \<^verbatim>\<open>status\<close>, \<^verbatim>\<open>createdAt\<close>
  and \<^verbatim>\<open>updatedAt\<close>; an absent or empty \<^verbatim>\<open>status\<close> is the empty string. The stores
  \<^verbatim>\<open>qualificationTypes\<close> and \<^verbatim>\<open>settings\<close>, which the paths below copy and never read,
  are left out. Every clock reading of one operation is the one time value \<open>now\<close>.
\<close>

record marine =
  m_id :: "nat option"
  edipi :: "string option"
  lastName :: string
  firstName :: string
  rank :: string
  mos :: string
  eas :: "isodate option"
  m_status :: string
  m_createdAt :: "int option"
  m_updatedAt :: "int option"

record importRecord =
  ir_type :: string
  ir_qualificationType :: string
  ir_source :: string
  ir_total :: nat
  ir_added :: nat
  ir_skipped :: nat
  ir_errorCount :: nat
  ir_timestamp :: int

record 'm store =
  marines :: "'m marine_scheme list"
  marineKey :: nat
  qualifications :: "qualification list"
  qualificationKey :: nat
  importHistory :: "importRecord list"

definition emptyStore :: "'m store" where
  "emptyStore = \<lparr>marines = [], marineKey = 1, qualifications = [], qualificationKey = 1,
                  importHistory = []\<rparr>"

text \<open>\<^verbatim>\<open>x = x || y\<close> on an optional field.\<close>

definition orElse :: "'a option \<Rightarrow> 'a \<Rightarrow> 'a option" where
  "orElse x y = (case x of None \<Rightarrow> Some y | Some v \<Rightarrow> Some v)"

fun insertMarine :: "nat \<Rightarrow> 'm marine_scheme \<Rightarrow> 'm marine_scheme list \<Rightarrow> 'm marine_scheme list"
  where
  "insertMarine k m [] = [m]"
| "insertMarine k m (x # xs) =
     (if (case m_id x of Some j \<Rightarrow> k < j | None \<Rightarrow> False) then m # x # xs
      else x # insertMarine k m xs)"

definition addMarine ::
  "int \<Rightarrow> 'm marine_scheme \<Rightarrow> 'm store \<Rightarrow> js_error + (nat \<times> 'm store)" where
  "addMarine now marine st =
     (let m1 = marine\<lparr>m_createdAt := orElse (m_createdAt marine) now,
                      m_updatedAt := Some now,
                      m_status := (if m_status marine = [] then ''present'' else m_status marine)\<rparr>;
          key = (case m_id m1 of None \<Rightarrow> marineKey st | Some k \<Rightarrow> k)
      in if (\<exists>x \<in> set (marines st). m_id x = Some key) then Inl ConstraintError
         else if (case edipi m1 of
                    None \<Rightarrow> False
                  | Some e \<Rightarrow> \<exists>x \<in> set (marines st). edipi x = Some e) then Inl ConstraintError
         else Inr (key, st\<lparr>marines := insertMarine key (m1\<lparr>m_id := Some key\<rparr>) (marines st),
                            marineKey := max (marineKey st) (key + 1)\<rparr>))"

definition getMarineByEdipi :: "'m store \<Rightarrow> string \<Rightarrow> 'm marine_scheme option" where
  "getMarineByEdipi st e = find (\<lambda>m. edipi m = Some e) (marines st)"

fun insertQualification :: "nat \<Rightarrow> qualification \<Rightarrow> qualification list \<Rightarrow> qualification list"
  where
  "insertQualification k q [] = [q]"
| "insertQualification k q (x # xs) =
     (if (case q_id x of Some j \<Rightarrow> k < j | None \<Rightarrow> False) then q # x # xs
      else x # insertQualification k q xs)"

definition addQualification ::
  "int \<Rightarrow> qualification \<Rightarrow> 'm store \<Rightarrow> js_error + (nat \<times> 'm store)" where
  "addQualification now qual st =
     (let q1 = qual\<lparr>q_createdAt := orElse (q_createdAt qual) now, q_updatedAt := Some now\<rparr>;
          key = (case q_id q1 of None \<Rightarrow> qualificationKey st | Some k \<Rightarrow> k)
      in if (\<exists>x \<in> set (qualifications st). q_id x = Some key) then Inl ConstraintError
         else Inr (key,
                st\<lparr>qualifications :=
                      insertQualification key (q1\<lparr>q_id := Some key\<rparr>) (qualifications st),
                   qualificationKey := max (qualificationKey st) (key + 1)\<rparr>))"

definition logImport :: "int \<Rightarrow> importRecord \<Rightarrow> 'm store \<Rightarrow> 'm store" where
  "logImport now r st = st\<lparr>importHistory := importHistory st @ [r\<lparr>ir_timestamp := now\<rparr>]\<rparr>"

subsection \<open>Backup and restore\<close>

record 'm backupData =
  b_marines :: "'m marine_scheme list option"
  b_qualifications :: "qualification list option"

record 'm backup =
  version :: nat
  exportDate :: int
  data :: "'m backupData option"

definition exportAllData :: "int \<Rightarrow> 'm store \<Rightarrow> 'm backup" where
  "exportAllData now st =
     \<lparr>version = 1, exportDate = now,
      data = Some \<lparr>b_marines = Some (marines st), b_qualifications = Some (qualifications st)\<rparr>\<rparr>"

record backupResults =
  marinesAdded :: nat
  marinesErrors :: "js_error list"
  qualificationsAdded :: nat
  qualificationsErrors :: "js_error list"

text \<open>
  The two loops of \<open>importFromBackup\<close>. The first carries the store, the dictionary
  \<^verbatim>\<open>idMap\<close> from old to new Marine ids and the counts; the second reads the dictionary.
  \<^verbatim>\<open>if (newMarineId)\<close> holds for a number other than 0.
\<close>

fun importBackupMarines ::
  "int \<Rightarrow> 'm marine_scheme list \<Rightarrow> 'm store \<times> (nat option \<rightharpoonup> nat) \<times> backupResults
   \<Rightarrow> 'm store \<times> (nat option \<rightharpoonup> nat) \<times> backupResults" where
  "importBackupMarines now [] acc = acc"
| "importBackupMarines now (marine # rest) (st, idMap, res) =
     (let oldId = m_id marine
      in case addMarine now (marine\<lparr>m_id := None\<rparr>) st of
           Inr (newId, st') \<Rightarrow>
             importBackupMarines now rest
               (st', idMap(oldId \<mapsto> newId), res\<lparr>marinesAdded := marinesAdded res + 1\<rparr>)
         | Inl e \<Rightarrow>
             importBackupMarines now rest
               (st, idMap, res\<lparr>marinesErrors := marinesErrors res @ [e]\<rparr>))"

fun importBackupQualifications ::
  "int \<Rightarrow> (nat option \<rightharpoonup> nat) \<Rightarrow> qualification list \<Rightarrow> 'm store \<times> backupResults
   \<Rightarrow> 'm store \<times> backupResults" where
  "importBackupQualifications now idMap [] acc = acc"
| "importBackupQualifications now idMap (qual # rest) (st, res) =
     (case idMap (marineId qual) of
        None \<Rightarrow> importBackupQualifications now idMap rest (st, res)
      | Some newMarineId \<Rightarrow>
          if newMarineId = 0 then importBackupQualifications now idMap rest (st, res)
          else (case addQualification now (qual\<lparr>marineId := Some newMarineId, q_id := None\<rparr>) st of
                  Inr (_, st') \<Rightarrow>
                    importBackupQualifications now idMap rest
                      (st', res\<lparr>qualificationsAdded := qualificationsAdded res + 1\<rparr>)
                | Inl e \<Rightarrow>
                    importBackupQualifications now idMap rest
                      (st, res\<lparr>qualificationsErrors := qualificationsErrors res @ [e]\<rparr>)))"

definition importFromBackup ::
  "int \<Rightarrow> 'm backup \<Rightarrow> 'm store \<Rightarrow> js_error + (backupResults \<times> 'm store)" where
  "importFromBackup now bk st =
     (case data bk of
        None \<Rightarrow> Inl InvalidBackup
      | Some d \<Rightarrow>
          (let res = \<lparr>marinesAdded = 0, marinesErrors = [],
                      qualificationsAdded = 0, qualificationsErrors = []\<rparr>
           in case b_marines d of
                None \<Rightarrow> Inr (res, st)
              | Some ms \<Rightarrow>
                  (case importBackupMarines now ms (st, Map.empty, res) of
                     (st1, idMap, res1) \<Rightarrow>
                       (case b_qualifications d of
                          None \<Rightarrow> Inr (res1, st1)
                        | Some qs \<Rightarrow>
                            (case importBackupQualifications now idMap qs (st1, res1) of
                               (st2, res2) \<Rightarrow> Inr (res2, st2))))))"

section \<open>Importing qualifications\<close>

text \<open>
  \<^verbatim>\<open>importQualifications\<close> of \<^verbatim>\<open>src/js/import.js\<close>. A row maps headers to cells; the
  column mapping is the list of its entries in the order in which \<^verbatim>\<open>Object.keys\<close>
  enumerates them. Headers are not names of properties that every object inherits
  (\<^verbatim>\<open>constructor\<close> and the like).
\<close>

type_synonym row = "(string \<times> cell) list"

definition rowGet :: "row \<Rightarrow> string \<Rightarrow> cell" where
  "rowGet r k = (case map_of r k of None \<Rightarrow> Undefined | Some c \<Rightarrow> c)"

text \<open>\<^verbatim>\<open>Object.keys(mapping).find(k => p(mapping[k]))\<close>\<close>

definition findKey :: "(string \<Rightarrow> bool) \<Rightarrow> (string \<times> string) list \<Rightarrow> string option" where
  "findKey p mapping =
     find (\<lambda>k. case map_of mapping k of None \<Rightarrow> False | Some v \<Rightarrow> p v) (map fst mapping)"

text \<open>
  \<^verbatim>\<open>parseInt(string)\<close>: leading white space, a sign, the prefix \<^verbatim>\<open>0x\<close> for base 16, then
  the longest run of digits; \<open>None\<close> is NaN. The result is the integer that the digits
  denote; JavaScript keeps the nearest double, which is that integer up to \<open>2 ^ 53\<close>.
\<close>

definition hexVal :: "char \<Rightarrow> nat option" where
  "hexVal c =
     (let n = (of_char c :: nat)
      in if 48 \<le> n \<and> n \<le> 57 then Some (n - 48)
         else if 65 \<le> n \<and> n \<le> 70 then Some (n - 55)
         else if 97 \<le> n \<and> n \<le> 102 then Some (n - 87)
         else None)"

definition parseInt :: "string \<Rightarrow> int option" where
  "parseInt s =
     (let s1 = dropWhile isSpace s;
          neg = (case s1 of [] \<Rightarrow> False | c # _ \<Rightarrow> c = CHR ''-'');
          s2 = (case s1 of [] \<Rightarrow> [] | c # r \<Rightarrow> if c = CHR ''-'' \<or> c = CHR ''+'' then r else s1);
          hex = (take 2 s2 = ''0x'' \<or> take 2 s2 = ''0X'');
          ds = (if hex then takeWhile (\<lambda>c. hexVal c \<noteq> None) (drop 2 s2)
                else takeWhile isDigit s2);
          v = (if hex then int (foldl (\<lambda>a c. 16 * a + (case hexVal c of Some d \<Rightarrow> d | None \<Rightarrow> 0)) 0 ds)
               else toNumber ds)
      in if ds = [] then None else Some (if neg then - v else v))"

datatype importError =
    NoEdipi nat
  | MarineNotFound nat string
  | Thrown nat js_error

record importResults =
  total :: nat
  added :: nat
  updated :: nat
  skipped :: nat
  errors :: "importError list"

text \<open>
  One turn of the loop of \<open>importQualifications\<close>, for the row of index \<open>i\<close>, in two
  steps. \<open>rowEdipi\<close> is the identifier read from the mapped column (\<^verbatim>\<open>null\<close> and the
  empty string are both the empty string here). \<open>rowOutcome\<close> is the body of the \<^verbatim>\<open>try\<close>
  block up to the object \<^verbatim>\<open>qualification\<close>: the row is skipped with an error, or an
  exception of \<open>parseDate\<close> or \<open>calculateExpiration\<close> is caught, or the record to add
  is built. \<open>importQualificationRow\<close> then calls the store and counts. A caught
  exception is recorded in \<open>errors\<close>, and neither \<open>added\<close> nor \<open>skipped\<close> counts the row.
  The tests \<^verbatim>\<open>edipiCol ? \<dots>\<close>, \<^verbatim>\<open>dateCol ? \<dots>\<close> and \<^verbatim>\<open>scoreCol ? \<dots>\<close> take a column
  whose header is the empty string for no column.
\<close>

definition rowEdipi :: "host \<Rightarrow> (string \<times> string) list \<Rightarrow> row \<Rightarrow> string" where
  "rowEdipi h mapping r =
     (let edipiCol = findKey (\<lambda>v. v = ''edipi'') mapping
      in case edipiCol of
           None \<Rightarrow> []
         | Some k \<Rightarrow> if k = [] then [] else filter isDigit (jsString h (rowGet r k)))"

datatype rowOutcome = Skipped importError | Caught importError | Built qualification

definition rowOutcome ::
  "host \<Rightarrow> int \<Rightarrow> (string \<times> string) list \<Rightarrow> string \<Rightarrow> string \<Rightarrow> 'm store \<Rightarrow> nat \<Rightarrow> row
   \<Rightarrow> rowOutcome" where
  "rowOutcome h now mapping qualType src st i r =
     (let edipi' = rowEdipi h mapping r
      in if edipi' = [] then Skipped (NoEdipi (i + 1))
         else
           (case getMarineByEdipi st edipi' of
              None \<Rightarrow> Skipped (MarineNotFound (i + 1) edipi')
            | Some marine \<Rightarrow>
                (let dateCol = findKey (\<lambda>v. v = ''completionDate'' \<or> v = ''date'') mapping
                 in case (case dateCol of
                            None \<Rightarrow> Inr (Some (toISODate now))
                          | Some k \<Rightarrow>
                              if k = [] then Inr (Some (toISODate now))
                              else parseDate h (rowGet r k)) of
                      Inl e \<Rightarrow> Caught (Thrown (i + 1) e)
                    | Inr completionDate' \<Rightarrow>
                        (let scoreCol = findKey (\<lambda>v. v = ''score'') mapping;
                             score' = (case scoreCol of
                                         None \<Rightarrow> None
                                       | Some k \<Rightarrow>
                                           if k = [] then None
                                           else
                                             (case parseInt (jsString h (rowGet r k)) of
                                                None \<Rightarrow> None
                                              | Some n \<Rightarrow> if n = 0 then None else Some n))
                         in case (case getQualificationType qualType of
                                    None \<Rightarrow> Inr None
                                  | Some qualTypeObj \<Rightarrow>
                                      calculateExpiration (LocalTZA h) qualTypeObj
                                        completionDate' (eas marine)) of
                              Inl e \<Rightarrow> Caught (Thrown (i + 1) e)
                            | Inr expirationDate' \<Rightarrow>
                                Built \<lparr>q_id = None, marineId = m_id marine, q_type = qualType,
                                       completionDate = completionDate',
                                       expirationDate = expirationDate',
                                       score = score',
                                       q_source = (if src = [] then ''import'' else src),
                                       q_createdAt = None, q_updatedAt = None\<rparr>))))"

definition importQualificationRow ::
  "host \<Rightarrow> int \<Rightarrow> (string \<times> string) list \<Rightarrow> string \<Rightarrow> string \<Rightarrow> nat \<Rightarrow> row
   \<Rightarrow> 'm store \<times> importResults \<Rightarrow> 'm store \<times> importResults" where
  "importQualificationRow h now mapping qualType src i r acc =
     (case acc of (st, results) \<Rightarrow>
        (case rowOutcome h now mapping qualType src st i r of
           Skipped e \<Rightarrow> (st, results\<lparr>errors := errors results @ [e],
                                      skipped := skipped results + 1\<rparr>)
         | Caught e \<Rightarrow> (st, results\<lparr>errors := errors results @ [e]\<rparr>)
         | Built qualification \<Rightarrow>
             (case addQualification now qualification st of
                Inl e \<Rightarrow> (st, results\<lparr>errors := errors results @ [Thrown (i + 1) e]\<rparr>)
              | Inr (_, st') \<Rightarrow> (st', results\<lparr>added := added results + 1\<rparr>))))"

fun importQualificationRows ::
  "host \<Rightarrow> int \<Rightarrow> (string \<times> string) list \<Rightarrow> string \<Rightarrow> string \<Rightarrow> nat \<Rightarrow> row list
   \<Rightarrow> 'm store \<times> importResults \<Rightarrow> 'm store \<times> importResults" where
  "importQualificationRows h now mapping qualType src i [] acc = acc"
| "importQualificationRows h now mapping qualType src i (r # rs) acc =
     importQualificationRows h now mapping qualType src (i + 1) rs
       (importQualificationRow h now mapping qualType src i r acc)"

definition importQualifications ::
  "host \<Rightarrow> int \<Rightarrow> row list \<Rightarrow> (string \<times> string) list \<Rightarrow> string \<Rightarrow> string
   \<Rightarrow> 'm store \<Rightarrow> importResults \<times> 'm store" where
  "importQualifications h now rows mapping qualType src st =
     (let results = \<lparr>total = length rows, added = 0, updated = 0, skipped = 0, errors = []\<rparr>
      in case importQualificationRows h now mapping qualType src 0 rows (st, results) of
           (st', results') \<Rightarrow>
             (results',
              logImport now
                \<lparr>ir_type = ''qualifications'', ir_qualificationType = qualType,
                 ir_source = (if src = [] then ''file_import'' else src),
                 ir_total = total results', ir_added = added results',
                 ir_skipped = skipped results', ir_errorCount = length (errors results'),
                 ir_timestamp = now\<rparr> st'))"


subsection \<open>Store invariants and the effect of a run\<close>

text \<open>
  What the object stores guarantee of their content: every record carries its key,
  the keys are below the next key of the generator and differ from one another, and
  no two Marines share an \<^verbatim>\<open>edipi\<close> (the unique index).
\<close>

definition wfQualifications :: "'m store \<Rightarrow> bool" where
  "wfQualifications st \<longleftrightarrow>
     (\<forall>x \<in> set (qualifications st). \<exists>j. q_id x = Some j \<and> j < qualificationKey st)"

fun uniqueEdipi :: "'m marine_scheme list \<Rightarrow> bool" where
  "uniqueEdipi [] = True"
| "uniqueEdipi (m # ms) =
     ((case edipi m of None \<Rightarrow> True | Some e \<Rightarrow> \<forall>x \<in> set ms. edipi x \<noteq> Some e) \<and> uniqueEdipi ms)"

definition wfMarines :: "'m store \<Rightarrow> bool" where
  "wfMarines st \<longleftrightarrow>
     (\<forall>x \<in> set (marines st). \<exists>j. m_id x = Some j \<and> j < marineKey st) \<and>
     distinct (map m_id (marines st)) \<and> uniqueEdipi (marines st)"

text \<open>
  For stating what a run of the import loop leaves behind: the records built by the
  rows, the errors recorded, the rows skipped, and the records as the store keeps them,
  with keys from \<open>k\<close> on and the time stamps of \<open>addQualification\<close>.
\<close>

fun builtOf :: "rowOutcome list \<Rightarrow> qualification list" where
  "builtOf [] = []"
| "builtOf (Built q # os) = q # builtOf os"
| "builtOf (_ # os) = builtOf os"

fun errorsOf :: "rowOutcome list \<Rightarrow> importError list" where
  "errorsOf [] = []"
| "errorsOf (Skipped e # os) = e # errorsOf os"
| "errorsOf (Caught e # os) = e # errorsOf os"
| "errorsOf (Built q # os) = errorsOf os"

fun skippedOf :: "rowOutcome list \<Rightarrow> nat" where
  "skippedOf [] = 0"
| "skippedOf (Skipped e # os) = Suc (skippedOf os)"
| "skippedOf (_ # os) = skippedOf os"

fun stored :: "int \<Rightarrow> nat \<Rightarrow> qualification list \<Rightarrow> qualification list" where
  "stored now k [] = []"
| "stored now k (q # qs) =
     q\<lparr>q_createdAt := orElse (q_createdAt q) now, q_updatedAt := Some now, q_id := Some k\<rparr>
       # stored now (Suc k) qs"

fun outcomes ::
  "host \<Rightarrow> int \<Rightarrow> (string \<times> string) list \<Rightarrow> string \<Rightarrow> string \<Rightarrow> 'm store \<Rightarrow> nat \<Rightarrow> row list
   \<Rightarrow> rowOutcome list" where
  "outcomes h now mapping qualType src st i [] = []"
| "outcomes h now mapping qualType src st i (r # rs) =
     rowOutcome h now mapping qualType src st i r
       # outcomes h now mapping qualType src st (Suc i) rs"

text \<open>
  For stating what a restore leaves behind: the Marine records as \<open>addMarine\<close> stores
  them, with keys from \<open>k\<close> on; the dictionary from old to new ids that the first loop of
  \<open>importFromBackup\<close> builds; and the qualification records that the second loop passes
  to the store, those whose old Marine id the dictionary knows, with the new id.
\<close>

fun storedMarines :: "int \<Rightarrow> nat \<Rightarrow> 'm marine_scheme list \<Rightarrow> 'm marine_scheme list" where
  "storedMarines now k [] = []"
| "storedMarines now k (m # ms) =
     m\<lparr>m_createdAt := orElse (m_createdAt m) now, m_updatedAt := Some now,
       m_status := (if m_status m = [] then ''present'' else m_status m), m_id := Some k\<rparr>
       # storedMarines now (Suc k) ms"

fun newIds :: "nat \<Rightarrow> 'm marine_scheme list \<Rightarrow> (nat option \<rightharpoonup> nat) \<Rightarrow> (nat option \<rightharpoonup> nat)"
  where
  "newIds k [] idMap = idMap"
| "newIds k (m # ms) idMap = newIds (Suc k) ms (idMap(m_id m \<mapsto> k))"

fun remapped :: "(nat option \<rightharpoonup> nat) \<Rightarrow> qualification list \<Rightarrow> qualification list" where
  "remapped idMap [] = []"
| "remapped idMap (q # qs) =
     (case idMap (marineId q) of
        None \<Rightarrow> remapped idMap qs
      | Some k \<Rightarrow>
          if k = 0 then remapped idMap qs
          else q\<lparr>marineId := Some k, q_id := None\<rparr> # remapped idMap qs)"

subsection \<open>A host with daylight saving\<close>

text \<open>
  A host that moves its clocks one hour ahead on 9 March 2025 at two o'clock local
  time (seven o'clock UTC), from five to four hours behind UTC, as the eastern United
  States do.
\<close>

definition springForward :: zone where
  "springForward t isUTC =
     (if t < makeDate (makeDay 2025 2 9) ((if isUTC then 7 else 2) * msPerHour)
      then - 5 * msPerHour else - 4 * msPerHour)"

subsection \<open>A sample roster and import\<close>

text \<open>
  Concrete inputs at which the functions are evaluated below: a host four hours behind
  UTC, a store holding one Marine, and an import of two rows, the first with an empty
  date cell and the second with an identifier that no Marine has.
\<close>

definition exampleHost :: host where
  "exampleHost = \<lparr>LocalTZA = fixedZone (- 4 * msPerHour), nativeParse = Map.empty,
                   dateToString = (\<lambda>_. []), numberToString = (\<lambda>_. [])\<rparr>"


definition exampleMarine :: marine where
  "exampleMarine = \<lparr>m_id = Some 1, edipi = Some ''1234567890'', lastName = ''Doe'',
                     firstName = ''John'', rank = ''Sgt'', mos = ''0311'', eas = None,
                     m_status = ''present'', m_createdAt = Some 1700000000000,
                     m_updatedAt = Some 1700000000000\<rparr>"

definition exampleStore :: "unit store" where
  "exampleStore = \<lparr>marines = [exampleMarine], marineKey = 2, qualifications = [],
                    qualificationKey = 1, importHistory = []\<rparr>"

definition exampleMapping :: "(string \<times> string) list" where
  "exampleMapping = [(''EDIPI'', ''edipi''), (''Date'', ''date'')]"

definition exampleRows :: "row list" where
  "exampleRows = [[(''EDIPI'', Str ''1234567890''), (''Date'', Str [])],
                  [(''EDIPI'', Str ''999''), (''Date'', Str ''2024-10-02'')]]"

text \<open>
  A second import, with name columns beside the identifier column \<^verbatim>\<open>DoD ID\<close>.
\<close>

definition rosterMapping :: "(string \<times> string) list" where
  "rosterMapping = [(''Last Name'', ''lastName''), (''First Name'', ''firstName''),
                    (''DoD ID'', ''edipi''), (''Completed'', ''completionDate''),
                    (''Score'', ''score'')]"

definition rosterRows :: "row list" where
  "rosterRows =
     [[(''Last Name'', Str ''Doe''), (''First Name'', Str ''John''),
       (''DoD ID'', Str ''0000000001''), (''Completed'', Str ''10/02/2024''),
       (''Score'', Str ''300'')],
      [(''Last Name'', Str ''Smith''), (''First Name'', Str ''Jane''),
       (''DoD ID'', Num 1234567890), (''Completed'', Str ''10/02/2024''),
       (''Score'', Num 285)],
      [(''Last Name'', Str ''Doe''), (''First Name'', Str ''John''),
       (''DoD ID'', Str ''n/a''), (''Completed'', Str ''10/02/2024''),
       (''Score'', Str ''300'')]]"

text \<open>
  The same roster with two qualification records, the second of which belongs to a
  Marine (id 7) who is no longer in the store.
\<close>

definition exampleRoster :: "unit store" where
  "exampleRoster = exampleStore
     \<lparr>qualifications :=
        [\<lparr>q_id = Some 1, marineId = Some 1, q_type = ''pft'',
          completionDate = Some (IsoDate 2024 3 15), expirationDate = Some 1751256000000,
          score = Some 285, q_source = ''manual'', q_createdAt = Some 1710000000000,
          q_updatedAt = Some 1710000000000\<rparr>,
         \<lparr>q_id = Some 2, marineId = Some 7, q_type = ''swim_qual'',
          completionDate = Some (IsoDate 2023 5 2), expirationDate = Some 1746144000000,
          score = None, q_source = ''import'', q_createdAt = Some 1690000000000,
          q_updatedAt = Some 1690000000000\<rparr>],
      qualificationKey := 3\<rparr>"

section \<open>Properties of the calendar\<close>


lemma div_bounds:
  fixes a :: int
  assumes "0 < k"
  shows "k * (a div k) \<le> a" "a < k * (a div k) + k"
proof -
  have "a = k * (a div k) + a mod k" by simp
  moreover have "0 \<le> a mod k" "a mod k < k" using assms by simp_all
  ultimately show "k * (a div k) \<le> a" "a < k * (a div k) + k" by linarith+
qed

lemma div_succ:
  fixes x k :: int
  assumes "0 < k"
  shows "(x + 1) div k = x div k + (if (x + 1) mod k = 0 then 1 else 0)"
proof -
  define q where "q = x div k"
  define r where "r = x mod k"
  have x: "x = k * q + r" and r: "0 \<le> r" "r < k" using assms by (simp_all add: q_def r_def)
  show ?thesis
  proof (cases "r = k - 1")
    case True
    then have e: "x + 1 = k * (q + 1) + 0" using x by (simp add: algebra_simps)
    have "(x + 1) div k = q + 1" using assms by (intro int_div_pos_eq[OF e]) simp_all
    moreover have "(x + 1) mod k = 0" using assms by (intro int_mod_pos_eq[OF e]) simp_all
    ultimately show ?thesis by (simp add: q_def)
  next
    case False
    then have r1: "0 \<le> r + 1" "r + 1 < k" using r by simp_all
    have e: "x + 1 = k * q + (r + 1)" using x by simp
    have "(x + 1) div k = q" by (rule int_div_pos_eq[OF e r1])
    moreover have "(x + 1) mod k = r + 1" by (rule int_mod_pos_eq[OF e r1])
    ultimately show ?thesis using r by (simp add: q_def)
  qed
qed

lemma mod_shift: "((y::int) - k * c) mod k = y mod k"
proof -
  have "y - k * c = y + k * (- c)" by simp
  then show ?thesis by (simp only: mod_mult_self2)
qed

lemma mod_400_100: "(y::int) mod 400 = 0 \<Longrightarrow> y mod 100 = 0"
proof -
  assume "y mod 400 = 0"
  then have "400 dvd y" by (simp add: dvd_eq_mod_eq_0)
  moreover have "(100::int) dvd 400" by simp
  ultimately have "100 dvd y" by (rule dvd_trans[rotated])
  then show ?thesis by (simp add: dvd_eq_mod_eq_0)
qed

lemma mod_100_4: "(y::int) mod 100 = 0 \<Longrightarrow> y mod 4 = 0"
proof -
  assume "y mod 100 = 0"
  then have "100 dvd y" by (simp add: dvd_eq_mod_eq_0)
  moreover have "(4::int) dvd 100" by simp
  ultimately have "4 dvd y" by (rule dvd_trans[rotated])
  then show ?thesis by (simp add: dvd_eq_mod_eq_0)
qed

lemma dayFromYear_step: "dayFromYear (y + 1) = dayFromYear y + daysInYear y"
proof -
  have a: "(y - 1968) div 4 = (y - 1969) div 4 + (if y mod 4 = 0 then 1 else 0)"
    using div_succ[of 4 "y - 1969"] mod_shift[of y 4 492] by simp
  have b: "(y - 1900) div 100 = (y - 1901) div 100 + (if y mod 100 = 0 then 1 else 0)"
    using div_succ[of 100 "y - 1901"] mod_shift[of y 100 19] by simp
  have c: "(y - 1600) div 400 = (y - 1601) div 400 + (if y mod 400 = 0 then 1 else 0)"
    using div_succ[of 400 "y - 1601"] mod_shift[of y 400 4] by simp
  have "dayFromYear (y + 1) =
        365 * (y - 1969) + (y - 1968) div 4 - (y - 1900) div 100 + (y - 1600) div 400"
    by (simp add: dayFromYear_def)
  then show ?thesis
    using mod_400_100[of y] mod_100_4[of y]
    by (auto simp: a b c dayFromYear_def daysInYear_def)
qed

lemma dayFromYear_less_step: "dayFromYear y < dayFromYear (y + 1)"
  by (simp add: dayFromYear_step daysInYear_def)

lemma dayFromYear_mono: "a \<le> b \<Longrightarrow> dayFromYear a \<le> dayFromYear b"
proof (induction b rule: int_ge_induct)
  case base
  show ?case by simp
next
  case (step i)
  then show ?case using dayFromYear_less_step[of i] by simp
qed

lemma dayFromYear_upper: "400 * dayFromYear y < 146097 * (y - 1970) + 593"
proof -
  define a where "a = (y - 1969) div 4"
  define b where "b = (y - 1901) div 100"
  define c where "c = (y - 1601) div 400"
  have "4 * a \<le> y - 1969" unfolding a_def by (rule div_bounds) simp
  moreover have "y - 1901 < 100 * b + 100" unfolding b_def by (rule div_bounds) simp
  moreover have "400 * c \<le> y - 1601" unfolding c_def by (rule div_bounds) simp
  moreover have "dayFromYear y = 365 * (y - 1970) + a - b + c"
    by (simp add: dayFromYear_def a_def b_def c_def)
  ultimately show ?thesis by (simp add: algebra_simps)
qed

lemma dayFromYear_lower: "146097 * (y - 1970) - 607 < 400 * dayFromYear y"
proof -
  define a where "a = (y - 1969) div 4"
  define b where "b = (y - 1901) div 100"
  define c where "c = (y - 1601) div 400"
  have "y - 1969 < 4 * a + 4" unfolding a_def by (rule div_bounds) simp
  moreover have "100 * b \<le> y - 1901" unfolding b_def by (rule div_bounds) simp
  moreover have "y - 1601 < 400 * c + 400" unfolding c_def by (rule div_bounds) simp
  moreover have "dayFromYear y = 365 * (y - 1970) + a - b + c"
    by (simp add: dayFromYear_def a_def b_def c_def)
  ultimately show ?thesis by (simp add: algebra_simps)
qed

lemma yearFromDay_bounds:
  "dayFromYear (yearFromDay n) \<le> n \<and> n < dayFromYear (yearFromDay n + 1)"
proof -
  define q where "q = (400 * n) div 146097"
  define y0 where "y0 = 1970 + q"
  have q1: "146097 * q \<le> 400 * n" unfolding q_def by (rule div_bounds) simp
  have q2: "400 * n < 146097 * q + 146097" unfolding q_def by (rule div_bounds) simp
  have "400 * dayFromYear (y0 - 1) < 146097 * q + 593 - 146097"
    using dayFromYear_upper[of "y0 - 1"] by (simp add: y0_def algebra_simps)
  then have lo: "dayFromYear (y0 - 1) \<le> n" using q1 by simp
  have "146097 * q + 2 * 146097 - 607 < 400 * dayFromYear (y0 + 2)"
    using dayFromYear_lower[of "y0 + 2"] by (simp add: y0_def algebra_simps)
  then have hi: "n < dayFromYear (y0 + 2)" using q2 by simp
  have yd: "yearFromDay n =
      (if dayFromYear (y0 + 1) \<le> n then y0 + 1 else if dayFromYear y0 \<le> n then y0 else y0 - 1)"
    by (simp add: yearFromDay_def y0_def q_def Let_def)
  have e: "y0 + 1 + 1 = y0 + 2" "y0 - 1 + 1 = y0" by simp_all
  show ?thesis using lo hi unfolding yd by (simp add: e)
qed

lemma yearFromDay_unique:
  assumes "dayFromYear y \<le> n" "n < dayFromYear (y + 1)"
  shows "yearFromDay n = y"
proof (rule ccontr)
  assume ne: "yearFromDay n \<noteq> y"
  let ?z = "yearFromDay n"
  from yearFromDay_bounds[of n] have b: "dayFromYear ?z \<le> n" "n < dayFromYear (?z + 1)" by simp_all
  from ne consider "?z + 1 \<le> y" | "y + 1 \<le> ?z" by linarith
  then show False
  proof cases
    case 1
    from dayFromYear_mono[OF 1] b assms show False by linarith
  next
    case 2
    from dayFromYear_mono[OF 2] b assms show False by linarith
  qed
qed

lemma inLeapYear_cases: "inLeapYear y = 0 \<or> inLeapYear y = 1"
  by (simp add: inLeapYear_def)

lemma daysInYear_leap: "daysInYear y = 365 + inLeapYear y"
  by (simp add: inLeapYear_def daysInYear_def)

lemma month_cases:
  fixes m :: int
  assumes "0 \<le> m" "m \<le> 11"
  shows "m = 0 \<or> m = 1 \<or> m = 2 \<or> m = 3 \<or> m = 4 \<or> m = 5 \<or> m = 6 \<or> m = 7 \<or> m = 8
         \<or> m = 9 \<or> m = 10 \<or> m = 11"
proof (cases "m \<le> 5")
  case True
  with assms have "m = 0 \<or> m = 1 \<or> m = 2 \<or> m = 3 \<or> m = 4 \<or> m = 5" by linarith
  then show ?thesis by blast
next
  case False
  with assms have "m = 6 \<or> m = 7 \<or> m = 8 \<or> m = 9 \<or> m = 10 \<or> m = 11" by linarith
  then show ?thesis by blast
qed

lemma makeDay_in_range:
  assumes "0 \<le> m" "m \<le> 11"
  shows "makeDay y m d = dayFromYear y + monthStart (inLeapYear y) m + d - 1"
proof -
  have "m div 12 = 0" "m mod 12 = m" using assms by simp_all
  then show ?thesis by (simp add: makeDay_def Let_def)
qed

lemma monthStart_bounds:
  assumes "0 \<le> m" "m \<le> 11" "1 \<le> d" "d \<le> daysInMonth l m" "l = 0 \<or> l = 1"
  shows "0 \<le> monthStart l m + d - 1" "monthStart l m + d - 1 < 365 + l"
proof -
  show "0 \<le> monthStart l m + d - 1"
    by (insert month_cases[OF assms(1,2)] assms(5) assms(3,4), elim disjE;
        simp add: monthStart_def daysInMonth_def)
  show "monthStart l m + d - 1 < 365 + l"
    by (insert month_cases[OF assms(1,2)] assms(5) assms(3,4), elim disjE;
        simp add: monthStart_def daysInMonth_def)
qed

lemma yearFromDay_makeDay:
  assumes "0 \<le> m" "m \<le> 11" "1 \<le> d" "d \<le> daysInMonth (inLeapYear y) m"
  shows "yearFromDay (makeDay y m d) = y"
proof (rule yearFromDay_unique)
  note b = monthStart_bounds[OF assms inLeapYear_cases]
  show "dayFromYear y \<le> makeDay y m d"
    using b(1) by (simp add: makeDay_in_range[OF assms(1,2)])
  show "makeDay y m d < dayFromYear (y + 1)"
    using b(2) by (simp add: makeDay_in_range[OF assms(1,2)] dayFromYear_step daysInYear_leap)
qed

lemma monthFromDay_makeDay:
  assumes "0 \<le> m" "m \<le> 11" "1 \<le> d" "d \<le> daysInMonth (inLeapYear y) m"
  shows "monthFromDay (makeDay y m d) = m"
proof -
  have "dayWithinYear (makeDay y m d) = makeDay y m d - dayFromYear y"
    by (simp only: dayWithinYear_def yearFromDay_makeDay[OF assms])
  then have dw: "dayWithinYear (makeDay y m d) = monthStart (inLeapYear y) m + d - 1"
    by (simp add: makeDay_in_range[OF assms(1,2)])
  show ?thesis
    unfolding monthFromDay_def Let_def dw yearFromDay_makeDay[OF assms]
    by (insert month_cases[OF assms(1,2)] inLeapYear_cases[of y] assms(3,4), elim disjE;
        simp add: monthStart_def daysInMonth_def)
qed

lemma dateFromDay_makeDay:
  assumes "0 \<le> m" "m \<le> 11" "1 \<le> d" "d \<le> daysInMonth (inLeapYear y) m"
  shows "dateFromDay (makeDay y m d) = d"
proof -
  have "dateFromDay (makeDay y m d) =
        makeDay y m d - dayFromYear y - monthStart (inLeapYear y) m + 1"
    by (simp only: dateFromDay_def dayWithinYear_def yearFromDay_makeDay[OF assms]
        monthFromDay_makeDay[OF assms])
  then show ?thesis by (simp add: makeDay_in_range[OF assms(1,2)])
qed

lemma monthFromDay_range: "0 \<le> monthFromDay n \<and> monthFromDay n \<le> 11"
  by (simp add: monthFromDay_def Let_def)

lemma makeDay_fields:
  "makeDay (yearFromDay n) (monthFromDay n) (dateFromDay n + k) = n + k"
  using monthFromDay_range[of n]
  by (simp add: makeDay_in_range dateFromDay_def dayWithinYear_def)

lemma Day_makeDate:
  assumes "0 \<le> r" "r < msPerDay"
  shows "Day (makeDate n r) = n" "TimeWithinDay (makeDate n r) = r"
proof -
  have e: "makeDate n r = msPerDay * n + r" by (simp add: makeDate_def)
  have p: "0 < msPerDay" by (simp add: msPerDay_def)
  show "Day (makeDate n r) = n" unfolding Day_def by (rule int_div_pos_eq[OF e assms])
  show "TimeWithinDay (makeDate n r) = r" unfolding TimeWithinDay_def
    by (rule int_mod_pos_eq[OF e assms])
qed

lemma makeDate_Day: "makeDate (Day t) (TimeWithinDay t) = t"
  by (simp add: makeDate_def Day_def TimeWithinDay_def)


lemma msPerDay_pos: "0 < msPerDay"
  by (simp add: msPerDay_def)

lemma Day_local_east:
  assumes "0 \<le> tza" "tza < msPerDay"
  shows "Day (localTime (fixedZone tza) (makeDate n 0)) = n"
    and "TimeWithinDay (localTime (fixedZone tza) (makeDate n 0)) = tza"
proof -
  have e: "localTime (fixedZone tza) (makeDate n 0) = makeDate n tza"
    by (simp add: localTime_def fixedZone_def makeDate_def)
  show "Day (localTime (fixedZone tza) (makeDate n 0)) = n"
    unfolding e by (rule Day_makeDate(1)[OF assms])
  show "TimeWithinDay (localTime (fixedZone tza) (makeDate n 0)) = tza"
    unfolding e by (rule Day_makeDate(2)[OF assms])
qed

lemma Day_local_west:
  assumes "- msPerDay < tza" "tza < 0"
  shows "Day (localTime (fixedZone tza) (makeDate n 0)) = n - 1"
    and "TimeWithinDay (localTime (fixedZone tza) (makeDate n 0)) = msPerDay + tza"
proof -
  have e: "localTime (fixedZone tza) (makeDate n 0) = makeDate (n - 1) (msPerDay + tza)"
    by (simp add: localTime_def fixedZone_def makeDate_def algebra_simps)
  have r: "0 \<le> msPerDay + tza" "msPerDay + tza < msPerDay" using assms by simp_all
  show "Day (localTime (fixedZone tza) (makeDate n 0)) = n - 1"
    unfolding e by (rule Day_makeDate(1)[OF r])
  show "TimeWithinDay (localTime (fixedZone tza) (makeDate n 0)) = msPerDay + tza"
    unfolding e by (rule Day_makeDate(2)[OF r])
qed

lemma local_utc: "localTime (fixedZone tza) (utcTime (fixedZone tza) t) = t"
  by (simp add: localTime_def fixedZone_def utcTime_def)

lemma makeDate_le_iff:
  assumes "0 \<le> r" "r < msPerDay"
  shows "makeDate a 0 \<le> makeDate b 0 + r \<longleftrightarrow> a \<le> b"
proof
  assume "a \<le> b"
  then have "a * msPerDay \<le> b * msPerDay"
    using msPerDay_pos by (intro mult_right_mono) simp_all
  then show "makeDate a 0 \<le> makeDate b 0 + r"
    unfolding makeDate_def using assms by linarith
next
  assume h: "makeDate a 0 \<le> makeDate b 0 + r"
  show "a \<le> b"
  proof (rule ccontr)
    assume "\<not> a \<le> b"
    then have "b + 1 \<le> a" by simp
    then have "(b + 1) * msPerDay \<le> a * msPerDay"
      using msPerDay_pos by (intro mult_right_mono) simp_all
    then have "b * msPerDay + msPerDay \<le> a * msPerDay" by (simp add: algebra_simps)
    then show False using h assms unfolding makeDate_def by linarith
  qed
qed

text \<open>The local calendar fields of a Date built by the constructor are its arguments.\<close>

lemma newDateYMD_fields:
  assumes "0 \<le> m" "m \<le> 11" "1 \<le> d" "d \<le> daysInMonth (inLeapYear y) m" "y < 0 \<or> 99 < y"
  shows "getFullYear (fixedZone tza) (newDateYMD (fixedZone tza) y m d) = y"
    and "getMonth (fixedZone tza) (newDateYMD (fixedZone tza) y m d) = m"
    and "getDate (fixedZone tza) (newDateYMD (fixedZone tza) y m d) = d"
proof -
  have n: "newDateYMD (fixedZone tza) y m d = utcTime (fixedZone tza) (makeDate (makeDay y m d) 0)"
    using assms(5) by (auto simp: newDateYMD_def)
  have dd: "Day (localTime (fixedZone tza) (newDateYMD (fixedZone tza) y m d)) = makeDay y m d"
    unfolding n local_utc using Day_makeDate(1)[of 0 "makeDay y m d"] msPerDay_pos by simp
  show "getFullYear (fixedZone tza) (newDateYMD (fixedZone tza) y m d) = y"
    unfolding getFullYear_def dd by (rule yearFromDay_makeDay[OF assms(1-4)])
  show "getMonth (fixedZone tza) (newDateYMD (fixedZone tza) y m d) = m"
    unfolding getMonth_def dd by (rule monthFromDay_makeDay[OF assms(1-4)])
  show "getDate (fixedZone tza) (newDateYMD (fixedZone tza) y m d) = d"
    unfolding getDate_def dd by (rule dateFromDay_makeDay[OF assms(1-4)])
qed

lemma validDate_makeDay:
  assumes "validDate c"
  shows "makeDay (iyear c) (imonth c - 1) (iday c)
         = dayFromYear (iyear c) + monthStart (inLeapYear (iyear c)) (imonth c - 1) + iday c - 1"
    and "0 \<le> monthStart (inLeapYear (iyear c)) (imonth c - 1) + iday c - 1"
    and "monthStart (inLeapYear (iyear c)) (imonth c - 1) + iday c - 1 < 365 + inLeapYear (iyear c)"
proof -
  have v: "0 \<le> imonth c - 1" "imonth c - 1 \<le> 11" "1 \<le> iday c"
    "iday c \<le> daysInMonth (inLeapYear (iyear c)) (imonth c - 1)"
    using assms by (simp_all add: validDate_def)
  show "makeDay (iyear c) (imonth c - 1) (iday c)
         = dayFromYear (iyear c) + monthStart (inLeapYear (iyear c)) (imonth c - 1) + iday c - 1"
    by (rule makeDay_in_range[OF v(1,2)])
  show "0 \<le> monthStart (inLeapYear (iyear c)) (imonth c - 1) + iday c - 1"
    by (rule monthStart_bounds(1)[OF v inLeapYear_cases])
  show "monthStart (inLeapYear (iyear c)) (imonth c - 1) + iday c - 1 < 365 + inLeapYear (iyear c)"
    by (rule monthStart_bounds(2)[OF v inLeapYear_cases])
qed

lemma first_of_year:
  assumes "validDate c"
  shows "monthStart (inLeapYear (iyear c)) (imonth c - 1) + iday c - 1 = 0
         \<longleftrightarrow> imonth c = 1 \<and> iday c = 1"
proof -
  have v: "0 \<le> imonth c - 1" "imonth c - 1 \<le> 11" "1 \<le> iday c"
    using assms by (simp_all add: validDate_def)
  show ?thesis
    by (insert month_cases[OF v(1,2)] inLeapYear_cases[of "iyear c"] v(3), elim disjE;
        simp add: monthStart_def)
qed

text \<open>
  The local year of a date string read as midnight UTC: west of Greenwich the local
  date is the day before, so the first of January falls into the year before.
\<close>

lemma getFullYear_dateFromISO:
  assumes "validDate c" "- msPerDay < tza" "tza < msPerDay"
  shows "getFullYear (fixedZone tza) (dateFromISO c)
         = (if tza < 0 \<and> imonth c = 1 \<and> iday c = 1 then iyear c - 1 else iyear c)"
proof -
  let ?y = "iyear c"
  let ?w = "monthStart (inLeapYear ?y) (imonth c - 1) + iday c - 1"
  note md = validDate_makeDay[OF assms(1)]
  have D: "makeDay ?y (imonth c - 1) (iday c) = dayFromYear ?y + ?w" using md(1) by simp
  show ?thesis
  proof (cases "tza < 0")
    case False
    then have "Day (localTime (fixedZone tza) (dateFromISO c)) = makeDay ?y (imonth c - 1) (iday c)"
      unfolding dateFromISO_def using Day_local_east(1) assms(3) by simp
    moreover have "yearFromDay (dayFromYear ?y + ?w) = ?y"
      using md(2,3) by (intro yearFromDay_unique) (simp_all add: dayFromYear_step daysInYear_leap)
    ultimately show ?thesis using False by (simp add: getFullYear_def D)
  next
    case True
    then have dl: "Day (localTime (fixedZone tza) (dateFromISO c)) = dayFromYear ?y + ?w - 1"
      unfolding dateFromISO_def using Day_local_west(1) assms(2) by (simp add: D)
    show ?thesis
    proof (cases "?w = 0")
      case w0: True
      have "dayFromYear (?y - 1 + 1) = dayFromYear (?y - 1) + daysInYear (?y - 1)"
        by (rule dayFromYear_step)
      then have "yearFromDay (dayFromYear ?y + ?w - 1) = ?y - 1"
        using w0 by (intro yearFromDay_unique) (simp_all add: daysInYear_def)
      then show ?thesis using True w0 first_of_year[OF assms(1)] by (simp add: getFullYear_def dl)
    next
      case wn: False
      then have "yearFromDay (dayFromYear ?y + ?w - 1) = ?y"
        using md(2,3) by (intro yearFromDay_unique) (simp_all add: dayFromYear_step daysInYear_leap)
      then show ?thesis using True wn first_of_year[OF assms(1)] by (simp add: getFullYear_def dl)
    qed
  qed
qed

lemma fields_dateFromISO_east:
  assumes "validDate c" "0 \<le> tza" "tza < msPerDay"
  shows "getFullYear (fixedZone tza) (dateFromISO c) = iyear c"
    and "getMonth (fixedZone tza) (dateFromISO c) = imonth c - 1"
    and "getDate (fixedZone tza) (dateFromISO c) = iday c"
proof -
  have v: "0 \<le> imonth c - 1" "imonth c - 1 \<le> 11" "1 \<le> iday c"
    "iday c \<le> daysInMonth (inLeapYear (iyear c)) (imonth c - 1)"
    using assms(1) by (simp_all add: validDate_def)
  have d: "Day (localTime (fixedZone tza) (dateFromISO c)) = makeDay (iyear c) (imonth c - 1) (iday c)"
    unfolding dateFromISO_def by (rule Day_local_east(1)[OF assms(2,3)])
  show "getFullYear (fixedZone tza) (dateFromISO c) = iyear c"
    unfolding getFullYear_def d by (rule yearFromDay_makeDay[OF v])
  show "getMonth (fixedZone tza) (dateFromISO c) = imonth c - 1"
    unfolding getMonth_def d by (rule monthFromDay_makeDay[OF v])
  show "getDate (fixedZone tza) (dateFromISO c) = iday c"
    unfolding getDate_def d by (rule dateFromDay_makeDay[OF v])
qed

section \<open>The expiration engine\<close>

subsection \<open>Calendar windows\<close>


lemma daysInMonth_leap: "daysInMonth 0 m \<le> daysInMonth (inLeapYear y) m"
  using inLeapYear_cases[of y] by (auto simp: daysInMonth_def)

lemma newDateYMD_plain:
  assumes "99 < y"
  shows "newDateYMD (fixedZone tza) y m d = makeDate (makeDay y m d) 0 + (- tza)"
  using assms by (simp add: newDateYMD_def utcTime_def fixedZone_def)

lemma calculateExpiration_window_west:
  assumes ct: "cycleType qt = CALENDAR_WINDOW"
    and we: "windowEnd qt = Some (MonthDay wm wd)"
    and v: "validDate c" and yr: "101 \<le> iyear c"
    and tz: "- msPerDay < tza" "tza \<le> 0"
    and wv: "1 \<le> wm" "wm \<le> 12" "1 \<le> wd" "wd \<le> daysInMonth 0 (wm - 1)"
  shows "calculateExpiration (fixedZone tza) qt (Some c) sep =
         Inr (Some (newDateYMD (fixedZone tza)
           (iyear c + (if dateFromISO c \<le> dateFromISO (IsoDate (iyear c) wm wd) then 1 else 2))
           (wm - 1) wd))"
proof -
  let ?y = "iyear c"
  let ?D = "makeDay ?y (imonth c - 1) (iday c)"
  have r: "0 \<le> - tza" "- tza < msPerDay" using tz by simp_all
  have cmp: "makeDate ?D 0 \<le> newDateYMD (fixedZone tza) Y (wm - 1) wd \<longleftrightarrow> ?D \<le> makeDay Y (wm - 1) wd"
    if "99 < Y" for Y
    unfolding newDateYMD_plain[OF that] by (rule makeDate_le_iff[OF r])
  have rhs: "dateFromISO c \<le> dateFromISO (IsoDate ?y wm wd) \<longleftrightarrow> ?D \<le> makeDay ?y (wm - 1) wd"
    using makeDate_le_iff[of 0 ?D "makeDay ?y (wm - 1) wd"] msPerDay_pos
    by (simp add: dateFromISO_def)
  have gy: "getFullYear (fixedZone tza) (dateFromISO c)
            = (if tza < 0 \<and> imonth c = 1 \<and> iday c = 1 then ?y - 1 else ?y)"
    using tz msPerDay_pos by (intro getFullYear_dateFromISO[OF v]) simp_all
  have calc: "calculateExpiration (fixedZone tza) qt (Some c) sep =
      Inr (Some (newDateYMD (fixedZone tza)
        (if dateFromISO c \<le> newDateYMD (fixedZone tza) (getFullYear (fixedZone tza) (dateFromISO c)) (wm - 1) wd
         then getFullYear (fixedZone tza) (dateFromISO c) + 1 else getFullYear (fixedZone tza) (dateFromISO c) + 2)
        (wm - 1) wd))"
    by (simp add: calculateExpiration_def ct we newDate_def Let_def)
  have dc: "dateFromISO c = makeDate ?D 0" by (simp add: dateFromISO_def)
  show ?thesis
  proof (cases "tza < 0 \<and> imonth c = 1 \<and> iday c = 1")
    case False
    then have g: "getFullYear (fixedZone tza) (dateFromISO c) = ?y" using gy by simp
    have "99 < ?y" using yr by simp
    from cmp[OF this] show ?thesis
      unfolding calc g using rhs by (simp add: dc)
  next
    case True
    then have g: "getFullYear (fixedZone tza) (dateFromISO c) = ?y - 1" using gy by simp
    have y1: "99 < ?y - 1" using yr by simp
    have wm0: "0 \<le> wm - 1" "wm - 1 \<le> 11" using wv by simp_all
    have wd1: "wd \<le> daysInMonth (inLeapYear (?y - 1)) (wm - 1)"
      using wv(4) daysInMonth_leap[of "wm - 1" "?y - 1"] by simp
    have wd0: "wd \<le> daysInMonth (inLeapYear ?y) (wm - 1)"
      using wv(4) daysInMonth_leap[of "wm - 1" ?y] by simp
    have D: "?D = dayFromYear ?y"
      using True validDate_makeDay(1)[OF v] by (simp add: monthStart_def)
    have "makeDay (?y - 1) (wm - 1) wd < dayFromYear (?y - 1) + daysInYear (?y - 1)"
      using monthStart_bounds(2)[OF wm0 wv(3) wd1 inLeapYear_cases]
      by (simp add: makeDay_in_range[OF wm0] daysInYear_leap)
    moreover have "dayFromYear (?y - 1 + 1) = dayFromYear (?y - 1) + daysInYear (?y - 1)"
      by (rule dayFromYear_step)
    ultimately have before: "\<not> ?D \<le> makeDay (?y - 1) (wm - 1) wd" by (simp add: D)
    have after: "?D \<le> makeDay ?y (wm - 1) wd"
      using monthStart_bounds(1)[OF wm0 wv(3) wd0 inLeapYear_cases]
      by (simp add: makeDay_in_range[OF wm0] D)
    from cmp[OF y1] show ?thesis
      unfolding calc g using rhs before after by (simp add: dc add.commute)
  qed
qed

text \<open>
  East of Greenwich the date string, read as midnight UTC, is already some hours into
  the local day, so the comparison with local midnight of the window end holds only
  for completion dates strictly before the window end.
\<close>

lemma calculateExpiration_window_east:
  assumes ct: "cycleType qt = CALENDAR_WINDOW"
    and we: "windowEnd qt = Some (MonthDay wm wd)"
    and v: "validDate c" and yr: "100 \<le> iyear c"
    and tz: "0 < tza" "tza < msPerDay"
  shows "calculateExpiration (fixedZone tza) qt (Some c) sep =
         Inr (Some (newDateYMD (fixedZone tza)
           (iyear c + (if dateFromISO c < dateFromISO (IsoDate (iyear c) wm wd) then 1 else 2))
           (wm - 1) wd))"
proof -
  let ?y = "iyear c"
  let ?D = "makeDay ?y (imonth c - 1) (iday c)"
  let ?W = "makeDay ?y (wm - 1) wd"
  have r: "0 \<le> msPerDay - tza" "msPerDay - tza < msPerDay" using tz by simp_all
  have y: "99 < ?y" using yr by simp
  have "newDateYMD (fixedZone tza) ?y (wm - 1) wd = makeDate (?W - 1) 0 + (msPerDay - tza)"
    unfolding newDateYMD_plain[OF y] by (simp add: makeDate_def algebra_simps)
  then have cmp: "makeDate ?D 0 \<le> newDateYMD (fixedZone tza) ?y (wm - 1) wd \<longleftrightarrow> ?D \<le> ?W - 1"
    using makeDate_le_iff[OF r, of ?D "?W - 1"] by simp
  have "dateFromISO (IsoDate ?y wm wd) \<le> dateFromISO c \<longleftrightarrow> ?W \<le> ?D"
    using makeDate_le_iff[of 0 ?W ?D] msPerDay_pos by (simp add: dateFromISO_def)
  then have rhs: "dateFromISO c < dateFromISO (IsoDate ?y wm wd) \<longleftrightarrow> ?D \<le> ?W - 1"
    by linarith
  have g: "getFullYear (fixedZone tza) (dateFromISO c) = ?y"
    using tz by (intro fields_dateFromISO_east(1)[OF v]) simp_all
  have calc: "calculateExpiration (fixedZone tza) qt (Some c) sep =
      Inr (Some (newDateYMD (fixedZone tza)
        (if dateFromISO c \<le> newDateYMD (fixedZone tza) (getFullYear (fixedZone tza) (dateFromISO c)) (wm - 1) wd
         then getFullYear (fixedZone tza) (dateFromISO c) + 1 else getFullYear (fixedZone tza) (dateFromISO c) + 2)
        (wm - 1) wd))"
    by (simp add: calculateExpiration_def ct we newDate_def Let_def)
  have dc: "dateFromISO c = makeDate ?D 0" by (simp add: dateFromISO_def)
  show ?thesis unfolding calc g using cmp rhs by (simp add: dc)
qed

text \<open>
  Claim C1. For a CalendarWindow type, a completion date on or before the window end
  of its year expires at the window end of the next year, a later one at the window
  end of the year after that. The code departs from this on the window's last day when
  the host is east of Greenwich: for the PFT (window end 30 June), the completion date
  2024-06-30 and a host nine hours ahead of UTC, \<open>calculateExpiration\<close> returns local
  midnight of 30 June 2026, not of 30 June 2025. (\<open>calculateExpiration_window_west\<close>
  proves the claim for hosts at or west of Greenwich, \<open>calculateExpiration_window_east\<close>
  gives the strict comparison that holds east of it.)
\<close>

theorem window_end_day_east_of_utc:
  "getQualificationType ''pft'' = Some (mkWindow ''pft'' (1, 1) (6, 30)) \<and>
   calculateExpiration (fixedZone (9 * msPerHour)) (mkWindow ''pft'' (1, 1) (6, 30))
       (Some (IsoDate 2024 6 30)) None
     = Inr (Some (newDateYMD (fixedZone (9 * msPerHour)) 2026 5 30)) \<and>
   newDateYMD (fixedZone (9 * msPerHour)) 2026 5 30 \<noteq> newDateYMD (fixedZone (9 * msPerHour)) 2025 5 30"
  by code_simp

subsection \<open>Fiscal years\<close>

lemma getFiscalYear_fields:
  "getFiscalYear tza t = (if 9 \<le> getMonth tza t then getFullYear tza t + 1 else getFullYear tza t)"
  by (simp add: getFiscalYear_def Let_def)

text \<open>
  At or east of Greenwich the local date of a date string read as midnight UTC is the
  date written, and the fiscal-year rule holds for the date as written.
\<close>

lemma calculateExpiration_fiscal_east:
  assumes "cycleType qt = FISCAL_YEAR" "validDate c" "0 \<le> tza" "tza < msPerDay"
  shows "calculateExpiration (fixedZone tza) qt (Some c) sep =
         Inr (Some (newDateYMD (fixedZone tza) ((if 10 \<le> imonth c then iyear c + 1 else iyear c) + 1) 8 30))"
  using assms(1)
  by (simp add: calculateExpiration_def newDate_def getFiscalYear_def Let_def
      fields_dateFromISO_east[OF assms(2-4)])

text \<open>
  Claim C3. The fiscal year of a date is its calendar year plus one from October to
  December and its calendar year otherwise, and a FiscalYear qualification expires on
  30 September of the fiscal year after that of its completion date. The code departs
  from this on 1 October when the host is west of Greenwich: there the date string,
  read as midnight UTC, is still 30 September in local time. For the rifle
  qualification, the completion date 2024-10-01 and a host four hours behind UTC, the
  fiscal year computed is 2024, not 2025, and \<open>calculateExpiration\<close> returns local
  midnight of 30 September 2025, not of 30 September 2026.
\<close>

theorem fiscal_year_october_first_west_of_utc:
  "getQualificationType ''rifle_qual'' = Some (mkType ''rifle_qual'' FISCAL_YEAR) \<and>
   getFiscalYear (fixedZone (- 4 * msPerHour)) (newDate (Some (IsoDate 2024 10 1))) = 2024 \<and>
   calculateExpiration (fixedZone (- 4 * msPerHour)) (mkType ''rifle_qual'' FISCAL_YEAR)
       (Some (IsoDate 2024 10 1)) None
     = Inr (Some (newDateYMD (fixedZone (- 4 * msPerHour)) 2025 8 30)) \<and>
   newDateYMD (fixedZone (- 4 * msPerHour)) 2025 8 30 \<noteq> newDateYMD (fixedZone (- 4 * msPerHour)) 2026 8 30"
  by code_simp

subsection \<open>Rolling periods\<close>

text \<open>
  \<^verbatim>\<open>setMonth(getMonth() + n)\<close> on a completion date, for a host with a fixed offset. When
  the host is at or ahead of UTC, or the completion date is not the first of a month,
  the result is midnight UTC of the same day \<open>n\<close> calendar months later (a day beyond
  the end of that month runs on into the next, as the Date object has it).
\<close>

lemma utcTime_fixed: "utcTime (fixedZone a) t = t - a"
  by (simp add: utcTime_def fixedZone_def)

lemma makeDay_carry: "makeDay y m d = makeDay (y + m div 12) (m mod 12) d"
  by (simp add: makeDay_def Let_def)

lemma makeDay_day: "makeDay y m (d + k) = makeDay y m d + k"
  by (simp add: makeDay_def Let_def)

lemma setMonth_calendar:
  assumes v: "validDate c" and tz: "- msPerDay < tza" "tza < msPerDay"
    and j: "0 \<le> tza \<or> 2 \<le> iday c"
  shows "setMonth (fixedZone tza) (dateFromISO c) (getMonth (fixedZone tza) (dateFromISO c) + n)
         = dateFromISO (IsoDate (iyear c + (imonth c - 1 + n) div 12)
                                ((imonth c - 1 + n) mod 12 + 1) (iday c))"
proof -
  let ?y = "iyear c" and ?m = "imonth c - 1" and ?d = "iday c"
  let ?D = "makeDay ?y ?m ?d"
  let ?lt = "localTime (fixedZone tza) (dateFromISO c)"
  have vm: "0 \<le> ?m" "?m \<le> 11" "1 \<le> ?d" "?d \<le> daysInMonth (inLeapYear ?y) ?m"
    using v by (simp_all add: validDate_def)
  have rhs: "dateFromISO (IsoDate (?y + (?m + n) div 12) ((?m + n) mod 12 + 1) ?d)
             = makeDate (makeDay ?y (?m + n) ?d) 0"
    using makeDay_carry[of ?y "?m + n" ?d] by (simp add: dateFromISO_def)
  have "setMonth (fixedZone tza) (dateFromISO c) (getMonth (fixedZone tza) (dateFromISO c) + n)
        = makeDate (makeDay ?y (?m + n) ?d) 0"
  proof (cases "0 \<le> tza")
    case True
    have D: "Day ?lt = ?D" "TimeWithinDay ?lt = tza"
      unfolding dateFromISO_def by (rule Day_local_east[OF True tz(2)])+
    have f: "yearFromDay ?D = ?y" "monthFromDay ?D = ?m" "dateFromDay ?D = ?d"
      by (rule yearFromDay_makeDay[OF vm] monthFromDay_makeDay[OF vm] dateFromDay_makeDay[OF vm])+
    show ?thesis
      by (simp add: setMonth_def getMonth_def Let_def D f utcTime_fixed makeDate_def)
  next
    case False
    then have w: "tza < 0" and d2: "2 \<le> ?d" using j by simp_all
    have D: "Day ?lt = ?D - 1" "TimeWithinDay ?lt = msPerDay + tza"
      unfolding dateFromISO_def by (rule Day_local_west[OF tz(1) w])+
    have e: "?D - 1 = makeDay ?y ?m (?d - 1)" using makeDay_day[of ?y ?m ?d "- 1"] by simp
    have vm': "1 \<le> ?d - 1" "?d - 1 \<le> daysInMonth (inLeapYear ?y) ?m" using d2 vm(4) by simp_all
    have f: "yearFromDay (?D - 1) = ?y" "monthFromDay (?D - 1) = ?m" "dateFromDay (?D - 1) = ?d - 1"
      unfolding e
      by (rule yearFromDay_makeDay[OF vm(1,2) vm'] monthFromDay_makeDay[OF vm(1,2) vm']
          dateFromDay_makeDay[OF vm(1,2) vm'])+
    have s: "makeDay ?y (?m + n) (?d - 1) = makeDay ?y (?m + n) ?d - 1"
      using makeDay_day[of ?y "?m + n" ?d "- 1"] by simp
    have "setMonth (fixedZone tza) (dateFromISO c) (getMonth (fixedZone tza) (dateFromISO c) + n)
          = makeDate (makeDay ?y (?m + n) (?d - 1)) (msPerDay + tza) - tza"
      by (simp add: setMonth_def getMonth_def Let_def D f utcTime_fixed)
    also have "\<dots> = makeDate (makeDay ?y (?m + n) ?d) 0"
      unfolding s by (simp add: makeDate_def algebra_simps)
    finally show ?thesis .
  qed
  then show ?thesis unfolding rhs by simp
qed

text \<open>
  So for these hosts and dates a Rolling type with \<open>easAware\<close> set expires on the
  earlier of the separation date and the completion date plus \<open>expirationMonths\<close>
  calendar months.
\<close>

lemma calculateExpiration_rolling_calendar:
  assumes "cycleType qt = ROLLING" "easAware qt" "expirationMonths qt = Some n" "n \<noteq> 0"
    and v: "validDate c" and tz: "- msPerDay < tza" "tza < msPerDay"
    and j: "0 \<le> tza \<or> 2 \<le> iday c"
  shows "calculateExpiration (fixedZone tza) qt (Some c) (Some e) =
         Inr (Some (min (dateFromISO e)
                        (dateFromISO (IsoDate (iyear c + (imonth c - 1 + n) div 12)
                                              ((imonth c - 1 + n) mod 12 + 1) (iday c)))))"
  using assms(1-4)
  by (simp add: calculateExpiration_def newDate_def Let_def setMonth_calendar[OF v tz j] min_def)

text \<open>
  Claim C2. For a Rolling type with \<open>easAware\<close> set, a completion date and a
  separation date, \<open>calculateExpiration\<close> returns the separation date when it is
  earlier than the completion date plus \<open>expirationMonths\<close> calendar months, and the
  completion date plus \<open>expirationMonths\<close> months otherwise. The code adds the months
  by \<^verbatim>\<open>setMonth(getMonth() + expirationMonths)\<close>, to the local date of the completion
  date; the date string was read as midnight UTC, so on a host behind UTC the local
  date is the evening before, and the result can depart from the claim when the
  completion date is the first of a month. For a twelve-month \<open>easAware\<close> type, the
  completion date 2023-03-01, the separation date 2030-01-01 and a host five hours
  behind UTC, the local date is 28 February 2023, 19:00; twelve months later it is
  28 February 2024, 19:00, which is midnight UTC of 29 February 2024. That is what
  \<open>calculateExpiration\<close> returns, a day before 1 March 2024, the completion date plus
  twelve months, which a host at UTC returns for the same call. For the completion
  date 2024-03-01 the same host returns midnight UTC of 2 March 2025, a day after.
  (\<open>calculateExpiration_rolling_calendar\<close> proves the claim for hosts at or ahead of
  UTC, and behind UTC for every completion date but the first of a month.)
\<close>

theorem rolling_first_of_month_west_of_utc:
  "calculateExpiration (fixedZone (- 5 * msPerHour)) (mkRolling ''license_boat'' 12 True)
       (Some (IsoDate 2023 3 1)) (Some (IsoDate 2030 1 1))
     = Inr (Some (dateFromISO (IsoDate 2024 2 29))) \<and>
   toISODate (localTime (fixedZone (- 5 * msPerHour)) (dateFromISO (IsoDate 2024 2 29)))
     = IsoDate 2024 2 28 \<and>
   dateFromISO (IsoDate 2024 2 29) \<noteq> dateFromISO (IsoDate 2024 3 1) \<and>
   \<not> dateFromISO (IsoDate 2030 1 1) < dateFromISO (IsoDate 2024 3 1) \<and>
   calculateExpiration (fixedZone 0) (mkRolling ''license_boat'' 12 True)
       (Some (IsoDate 2023 3 1)) (Some (IsoDate 2030 1 1))
     = Inr (Some (dateFromISO (IsoDate 2024 3 1))) \<and>
   calculateExpiration (fixedZone (- 5 * msPerHour)) (mkRolling ''license_boat'' 12 True)
       (Some (IsoDate 2024 3 1)) (Some (IsoDate 2030 1 1))
     = Inr (Some (dateFromISO (IsoDate 2025 3 2)))"
  by code_simp



section \<open>Status of a qualification\<close>

text \<open>
  Claim C4 says that the status compares the expiration date with the current date
  by date only, the time of day ignored. The code compares time values: one and the
  same qualification, expiring at midnight of 30 September 2025, is \<open>expiring_soon\<close> at
  midnight of that day and \<open>expired\<close> at noon of the same day.
\<close>

theorem status_depends_on_time_of_day:
  "Day (localTime (fixedZone 0) (newDateYMD (fixedZone 0) 2025 8 30))
     = Day (localTime (fixedZone 0) (newDateYMD (fixedZone 0) 2025 8 30 + 12 * msPerHour)) \<and>
   getQualificationStatus (fixedZone 0) (newDateYMD (fixedZone 0) 2025 8 30)
     \<lparr>q_id = Some 1, marineId = Some 1, q_type = ''rifle_qual'',
      completionDate = Some (IsoDate 2024 5 20),
      expirationDate = Some (newDateYMD (fixedZone 0) 2025 8 30),
      score = None, q_source = ''manual'', q_createdAt = None, q_updatedAt = None\<rparr>
     = expiring_soon \<and>
   getQualificationStatus (fixedZone 0) (newDateYMD (fixedZone 0) 2025 8 30 + 12 * msPerHour)
     \<lparr>q_id = Some 1, marineId = Some 1, q_type = ''rifle_qual'',
      completionDate = Some (IsoDate 2024 5 20),
      expirationDate = Some (newDateYMD (fixedZone 0) 2025 8 30),
      score = None, q_source = ''manual'', q_createdAt = None, q_updatedAt = None\<rparr>
     = expired"
  by code_simp

text \<open>
  \<^verbatim>\<open>setDate(getDate() + k)\<close> moves a Date \<open>k\<close> days ahead on the local clock: the local
  time value grows by \<open>k\<close> days and is read back with the offset that the host has
  then. With a fixed offset that is \<open>k\<close> times 24 hours later.
\<close>

lemma setDate_getDate:
  "setDate tza t (getDate tza t + k) = utcTime tza (localTime tza t + k * msPerDay)"
proof -
  have "makeDate (Day (localTime tza t) + k) (TimeWithinDay (localTime tza t))
        = localTime tza t + k * msPerDay"
    using makeDate_Day[of "localTime tza t"] by (simp add: makeDate_def algebra_simps)
  then show ?thesis
    by (simp add: setDate_def getDate_def Let_def makeDay_fields)
qed

text \<open>
  Claim C4, amended. For a qualification with a completion date and an expiration
  date, the status compares the expiration time value \<open>e\<close> with the current time value
  \<open>now\<close>, time of day included: \<open>expired\<close> iff \<open>e < now\<close>; otherwise \<open>expiring_soon\<close>
  (the 30-day warning) iff \<open>e\<close> is at most \<open>T 30\<close>; otherwise \<open>expiring\<close> (the 90-day
  warning) iff \<open>e\<close> is at most \<open>T 90\<close>; otherwise \<open>current\<close>. Exactly one of the four
  holds, and the status is never \<open>missing\<close>. \<open>T k\<close> is the instant at which the local
  clock shows the time of day of \<open>now\<close> \<open>k\<close> days later: \<open>k\<close> times 24 hours after \<open>now\<close>,
  plus the host's UTC offset at \<open>now\<close>, minus its offset at that later local time. The
  two offsets are equal unless the host changes its clocks in between.
\<close>

theorem getQualificationStatus_thresholds:
  assumes "completionDate q = Some c" "expirationDate q = Some e"
  shows "let T = (\<lambda>k. now + k * msPerDay
                        + (tza now True - tza (now + tza now True + k * msPerDay) False))
         in (getQualificationStatus tza now q = expired \<longleftrightarrow> e < now) \<and>
            (getQualificationStatus tza now q = expiring_soon \<longleftrightarrow> now \<le> e \<and> e \<le> T 30) \<and>
            (getQualificationStatus tza now q = expiring \<longleftrightarrow> now \<le> e \<and> T 30 < e \<and> e \<le> T 90) \<and>
            (getQualificationStatus tza now q = current \<longleftrightarrow> now \<le> e \<and> T 30 < e \<and> T 90 < e) \<and>
            getQualificationStatus tza now q \<noteq> missing"
proof -
  define T where "T k = now + k * msPerDay
                        + (tza now True - tza (now + tza now True + k * msPerDay) False)" for k
  have t: "setDate tza now (getDate tza now + k) = T k" for k
    unfolding setDate_getDate by (simp add: T_def utcTime_def localTime_def)
  have s: "getQualificationStatus tza now q =
           (if e < now then expired
            else if e \<le> T 30 then expiring_soon
            else if e \<le> T 90 then expiring
            else current)"
    using assms by (simp add: getQualificationStatus_def Let_def t)
  have "(getQualificationStatus tza now q = expired \<longleftrightarrow> e < now) \<and>
        (getQualificationStatus tza now q = expiring_soon \<longleftrightarrow> now \<le> e \<and> e \<le> T 30) \<and>
        (getQualificationStatus tza now q = expiring \<longleftrightarrow> now \<le> e \<and> T 30 < e \<and> e \<le> T 90) \<and>
        (getQualificationStatus tza now q = current \<longleftrightarrow> now \<le> e \<and> T 30 < e \<and> T 90 < e) \<and>
        getQualificationStatus tza now q \<noteq> missing"
    unfolding s by auto
  then show ?thesis unfolding Let_def T_def .
qed

text \<open>
  One and the same qualification and instant on two hosts. At noon UTC of 1 March 2025
  the qualification expires 30 days later less half an hour. On a host that stays five
  hours behind UTC this is within the 30 days. On a host that moves its clocks ahead on
  9 March the 30 days on the local clock are an hour shorter, and the qualification is
  beyond them.
\<close>

theorem getQualificationStatus_thresholds_witness:
  "getQualificationStatus (fixedZone (- 5 * msPerHour)) (makeDate (makeDay 2025 2 1) (12 * msPerHour))
     \<lparr>q_id = Some 1, marineId = Some 1, q_type = ''pha'',
      completionDate = Some (IsoDate 2024 3 31),
      expirationDate = Some (makeDate (makeDay 2025 2 31) (12 * msPerHour) - 1800000),
      score = None, q_source = ''manual'', q_createdAt = None, q_updatedAt = None\<rparr>
   = expiring_soon \<and>
   getQualificationStatus springForward (makeDate (makeDay 2025 2 1) (12 * msPerHour))
     \<lparr>q_id = Some 1, marineId = Some 1, q_type = ''pha'',
      completionDate = Some (IsoDate 2024 3 31),
      expirationDate = Some (makeDate (makeDay 2025 2 31) (12 * msPerHour) - 1800000),
      score = None, q_source = ''manual'', q_createdAt = None, q_updatedAt = None\<rparr>
   = expiring"
proof -
  let ?q = "\<lparr>q_id = Some 1, marineId = Some 1, q_type = ''pha'',
      completionDate = Some (IsoDate 2024 3 31),
      expirationDate = Some (makeDate (makeDay 2025 2 31) (12 * msPerHour) - 1800000),
      score = None, q_source = ''manual'', q_createdAt = None, q_updatedAt = None\<rparr>"
  let ?now = "makeDate (makeDay 2025 2 1) (12 * msPerHour)"
  let ?e = "makeDate (makeDay 2025 2 31) (12 * msPerHour) - 1800000"
  have a: "completionDate ?q = Some (IsoDate 2024 3 31)" "expirationDate ?q = Some ?e"
    by simp_all
  have n: "?now = 1740830400000" "?e = 1743420600000" "msPerDay = 86400000"
    by code_simp+
  have z: "springForward 1740830400000 True = - 18000000"
    "springForward 1743404400000 False = - 14400000"
    "springForward 1748588400000 False = - 14400000"
    by code_simp+
  have f: "fixedZone (- 5 * msPerHour) = (\<lambda>t u. - 18000000)"
    by (simp add: fixedZone_def msPerHour_def)
  from getQualificationStatus_thresholds[OF a, where tza = "fixedZone (- 5 * msPerHour)" and now = ?now]
  have 1: "getQualificationStatus (fixedZone (- 5 * msPerHour)) ?now ?q = expiring_soon"
    unfolding Let_def n f by simp
  from getQualificationStatus_thresholds[OF a, where tza = springForward and now = ?now]
  have 2: "getQualificationStatus springForward ?now ?q = expiring"
    unfolding Let_def n by (simp add: z)
  from 1 2 show ?thesis by simp
qed

section \<open>Comparing ranks\<close>

lemma indexOf_notin: "indexOf xs x = - 1 \<longleftrightarrow> x \<notin> set xs"
  and indexOf_nonneg: "- 1 \<le> indexOf xs x"
  by (induction xs) (auto simp: Let_def)

lemma indexOf_less: "indexOf xs x < int (length xs)"
  by (induction xs) (auto simp: Let_def)

lemma indexOf_nth: "distinct xs \<Longrightarrow> i < length xs \<Longrightarrow> indexOf xs (xs ! i) = int i"
proof (induction xs arbitrary: i)
  case Nil
  then show ?case by simp
next
  case (Cons y ys)
  show ?case
  proof (cases i)
    case 0
    then show ?thesis by simp
  next
    case (Suc k)
    then have k: "k < length ys" using Cons.prems by simp
    then have "ys ! k \<in> set ys" by simp
    then have "y \<noteq> ys ! k" using Cons.prems(1) by auto
    moreover have "indexOf ys (ys ! k) = int k" using Cons.IH[OF _ k] Cons.prems(1) by simp
    ultimately show ?thesis using Suc by (simp add: Let_def)
  qed
qed

lemma RANK_ORDER_length: "length RANK_ORDER = 22"
  by (simp add: RANK_ORDER_def)

lemma RANK_ORDER_distinct: "distinct RANK_ORDER"
  by (simp add: RANK_ORDER_def)

lemma RANK_ORDER_normal: "map normalizeRank RANK_ORDER = RANK_ORDER"
  by code_simp

lemma compareRanks_order:
  "compareRanks a b =
     (if normalizeRank a \<in> set RANK_ORDER then indexOf RANK_ORDER (normalizeRank a) else 999)
   - (if normalizeRank b \<in> set RANK_ORDER then indexOf RANK_ORDER (normalizeRank b) else 999)"
  by (simp add: compareRanks_def Let_def indexOf_notin)

lemma known_order:
  "r \<in> set RANK_ORDER \<Longrightarrow> 0 \<le> indexOf RANK_ORDER r \<and> indexOf RANK_ORDER r < 22"
  using indexOf_notin[of RANK_ORDER r] indexOf_nonneg[of RANK_ORDER r] indexOf_less[of RANK_ORDER r]
  by (simp add: RANK_ORDER_length)

text \<open>
  Claim C9. \<open>compareRanks\<close> is a comparator: the signs of \<open>compare a b\<close> and
  \<open>compare b a\<close> are opposite (or both are zero), it is transitive, two known ranks are
  ordered by their positions in \<open>RANK_ORDER\<close> (the canonical names themselves by their
  indices), and a known rank sorts before an unknown one in both directions. A rank is
  known when its normal form is in \<open>RANK_ORDER\<close>.
\<close>

theorem compareRanks_comparator:
  "sgn (compareRanks a b) = - sgn (compareRanks b a) \<and>
   (compareRanks a b \<le> 0 \<and> compareRanks b c \<le> 0 \<longrightarrow> compareRanks a c \<le> 0) \<and>
   (compareRanks a b < 0 \<and> compareRanks b c < 0 \<longrightarrow> compareRanks a c < 0) \<and>
   (normalizeRank a \<in> set RANK_ORDER \<and> normalizeRank b \<in> set RANK_ORDER \<longrightarrow>
      compareRanks a b = indexOf RANK_ORDER (normalizeRank a) - indexOf RANK_ORDER (normalizeRank b)) \<and>
   (i < length RANK_ORDER \<and> j < length RANK_ORDER \<longrightarrow>
      compareRanks (RANK_ORDER ! i) (RANK_ORDER ! j) = int i - int j) \<and>
   (normalizeRank a \<in> set RANK_ORDER \<and> normalizeRank b \<notin> set RANK_ORDER \<longrightarrow>
      compareRanks a b < 0 \<and> compareRanks b a > 0)"
proof (intro conjI impI)
  have "compareRanks a b = - compareRanks b a" by (simp add: compareRanks_def Let_def)
  then show "sgn (compareRanks a b) = - sgn (compareRanks b a)" by simp
next
  assume "compareRanks a b \<le> 0 \<and> compareRanks b c \<le> 0"
  then show "compareRanks a c \<le> 0" unfolding compareRanks_order by linarith
next
  assume "compareRanks a b < 0 \<and> compareRanks b c < 0"
  then show "compareRanks a c < 0" unfolding compareRanks_order by linarith
next
  assume "normalizeRank a \<in> set RANK_ORDER \<and> normalizeRank b \<in> set RANK_ORDER"
  then show "compareRanks a b =
      indexOf RANK_ORDER (normalizeRank a) - indexOf RANK_ORDER (normalizeRank b)"
    by (simp add: compareRanks_order)
next
  assume ij: "i < length RANK_ORDER \<and> j < length RANK_ORDER"
  then have n: "normalizeRank (RANK_ORDER ! i) = RANK_ORDER ! i"
    "normalizeRank (RANK_ORDER ! j) = RANK_ORDER ! j"
    using RANK_ORDER_normal by (metis nth_map)+
  have "RANK_ORDER ! i \<in> set RANK_ORDER" "RANK_ORDER ! j \<in> set RANK_ORDER" using ij by simp_all
  then show "compareRanks (RANK_ORDER ! i) (RANK_ORDER ! j) = int i - int j"
    using ij by (simp add: compareRanks_order n indexOf_nth[OF RANK_ORDER_distinct])
next
  assume h: "normalizeRank a \<in> set RANK_ORDER \<and> normalizeRank b \<notin> set RANK_ORDER"
  then show "compareRanks a b < 0"
    using known_order[of "normalizeRank a"] by (simp add: compareRanks_order)
  from h show "compareRanks b a > 0"
    using known_order[of "normalizeRank a"] by (simp add: compareRanks_order)
qed

theorem compareRanks_comparator_witness:
  "compareRanks ''sgt'' ''Colonel'' = - 17 \<and>
   compareRanks ''Colonel'' ''Admiral'' < 0 \<and>
   compareRanks ''sgt'' ''Admiral'' < 0 \<and>
   compareRanks ''Admiral'' ''sgt'' > 0 \<and>
   compareRanks (RANK_ORDER ! 4) (RANK_ORDER ! 21) = - 17"
proof -
  have k: "normalizeRank ''sgt'' \<in> set RANK_ORDER" "normalizeRank ''Colonel'' \<in> set RANK_ORDER"
    "normalizeRank ''Admiral'' \<notin> set RANK_ORDER"
    by code_simp+
  have ix: "indexOf RANK_ORDER (normalizeRank ''sgt'') = 4"
    "indexOf RANK_ORDER (normalizeRank ''Colonel'') = 21"
    by code_simp+
  have l: "(4::nat) < length RANK_ORDER" "(21::nat) < length RANK_ORDER"
    by (simp_all add: RANK_ORDER_length)
  from compareRanks_comparator[of "''sgt''" "''Colonel''" "''Admiral''" 4 21]
       compareRanks_comparator[of "''Colonel''" "''Admiral''" "''sgt''" 4 21]
       compareRanks_comparator[of "''sgt''" "''Admiral''" "''Colonel''" 4 21]
  show ?thesis using k ix l by simp
qed

section \<open>Two-digit years\<close>















section \<open>Importing qualifications: the effect of a run\<close>

lemma insertQualification_append:
  "\<forall>x \<in> set xs. \<exists>j. q_id x = Some j \<and> j < k \<Longrightarrow> insertQualification k q xs = xs @ [q]"
  by (induction xs) auto

lemma addQualification_fresh:
  assumes "wfQualifications st" "q_id q = None"
  shows "addQualification now q st =
         Inr (qualificationKey st,
              st\<lparr>qualifications := qualifications st @ stored now (qualificationKey st) [q],
                 qualificationKey := Suc (qualificationKey st)\<rparr>)"
proof -
  have a: "\<forall>x \<in> set (qualifications st). \<exists>j. q_id x = Some j \<and> j < qualificationKey st"
    using assms(1) by (simp add: wfQualifications_def)
  then have "\<not> (\<exists>x \<in> set (qualifications st). q_id x = Some (qualificationKey st))" by auto
  then show ?thesis
    using assms(2) insertQualification_append[OF a]
    by (simp add: addQualification_def Let_def)
qed

lemma wfQualifications_stored:
  assumes "wfQualifications st"
  shows "wfQualifications
           (st\<lparr>qualifications := qualifications st @ stored now (qualificationKey st) [q],
               qualificationKey := Suc (qualificationKey st)\<rparr>)"
  using assms by (auto simp: wfQualifications_def less_Suc_eq)

lemma stored_append: "stored now k (xs @ ys) = stored now k xs @ stored now (k + length xs) ys"
  by (induction xs arbitrary: k) simp_all

lemma length_stored: "length (stored now k qs) = length qs"
  by (induction qs arbitrary: k) simp_all

lemma rowOutcome_marines:
  assumes "marines st = marines st'"
  shows "rowOutcome h now mapping qt src st i r = rowOutcome h now mapping qt src st' i r"
proof -
  have "getMarineByEdipi st = getMarineByEdipi st'"
    by (rule ext) (simp add: getMarineByEdipi_def assms)
  then show ?thesis unfolding rowOutcome_def by (simp only:)
qed

lemma outcomes_marines:
  "marines st = marines st' \<Longrightarrow>
   outcomes h now mapping qt src st i rs = outcomes h now mapping qt src st' i rs"
proof (induction rs arbitrary: i)
  case Nil
  show ?case by simp
next
  case (Cons r rs)
  show ?case
    using rowOutcome_marines[OF Cons.prems, of h now mapping qt src i r] Cons.IH[OF Cons.prems]
    by simp
qed

lemma rowOutcome_Built_id:
  assumes "rowOutcome h now mapping qt src st i r = Built q"
  shows "q_id q = None" "q_createdAt q = None"
  using assms unfolding rowOutcome_def Let_def
  by (auto split: if_splits option.splits sum.splits)

lemma importQualificationRows_effect:
  assumes "wfQualifications st"
  shows "importQualificationRows h now mapping qt src i rows (st, res) =
         (st\<lparr>qualifications :=
                 qualifications st @
                 stored now (qualificationKey st) (builtOf (outcomes h now mapping qt src st i rows)),
             qualificationKey :=
                 qualificationKey st + length (builtOf (outcomes h now mapping qt src st i rows))\<rparr>,
          res\<lparr>errors := errors res @ errorsOf (outcomes h now mapping qt src st i rows),
              skipped := skipped res + skippedOf (outcomes h now mapping qt src st i rows),
              added := added res + length (builtOf (outcomes h now mapping qt src st i rows))\<rparr>)"
  using assms
proof (induction rows arbitrary: i st res)
  case Nil
  show ?case by simp
next
  case (Cons r rs)
  show ?case
  proof (cases "rowOutcome h now mapping qt src st i r")
    case (Skipped e)
    then show ?thesis
      using Cons.IH[OF Cons.prems, of "Suc i"]
      by (simp add: importQualificationRow_def)
  next
    case (Caught e)
    then show ?thesis
      using Cons.IH[OF Cons.prems, of "Suc i"]
      by (simp add: importQualificationRow_def)
  next
    case (Built q)
    let ?st' = "st\<lparr>qualifications := qualifications st @ stored now (qualificationKey st) [q],
                     qualificationKey := Suc (qualificationKey st)\<rparr>"
    have add: "addQualification now q st = Inr (qualificationKey st, ?st')"
      by (rule addQualification_fresh[OF Cons.prems rowOutcome_Built_id(1)[OF Built]])
    have wf: "wfQualifications ?st'" by (rule wfQualifications_stored[OF Cons.prems])
    have m: "marines ?st' = marines st" by simp
    have o: "outcomes h now mapping qt src ?st' (Suc i) rs = outcomes h now mapping qt src st (Suc i) rs"
      by (rule outcomes_marines[OF m])
    note ih = Cons.IH[OF wf, of "Suc i", unfolded o]
    show ?thesis
      using ih Built add
      by (simp add: importQualificationRow_def)
  qed
qed

lemma calculateExpiration_isl:
  "isl (calculateExpiration tza qt c sep) = isl (calculateExpiration tza qt c' sep)"
  by (simp add: calculateExpiration_def Let_def split: cycle.splits option.splits)

lemma rowOutcome_Skipped_iff:
  "(\<exists>e. rowOutcome h now mapping qt src st i r = Skipped e) \<longleftrightarrow>
   (rowEdipi h mapping r = [] \<or> getMarineByEdipi st (rowEdipi h mapping r) = None)"
  unfolding rowOutcome_def Let_def
  by (auto split: if_splits option.splits sum.splits)

lemma rowOutcome_Skipped_error:
  assumes "rowEdipi h mapping r = [] \<or> getMarineByEdipi st (rowEdipi h mapping r) = None"
  shows "rowOutcome h now mapping qt src st i r =
         Skipped (if rowEdipi h mapping r = [] then NoEdipi (i + 1)
                  else MarineNotFound (i + 1) (rowEdipi h mapping r))"
  using assms unfolding rowOutcome_def Let_def by auto

lemma skippedOf_outcomes:
  "skippedOf (outcomes h now mapping qt src st i rows) =
   length (filter (\<lambda>r. rowEdipi h mapping r = [] \<or>
                        getMarineByEdipi st (rowEdipi h mapping r) = None) rows)"
proof (induction rows arbitrary: i)
  case Nil
  show ?case by simp
next
  case (Cons r rs)
  show ?case
  proof (cases "rowOutcome h now mapping qt src st i r")
    case (Skipped e)
    then have "\<exists>e. rowOutcome h now mapping qt src st i r = Skipped e" by simp
    then have "rowEdipi h mapping r = [] \<or> getMarineByEdipi st (rowEdipi h mapping r) = None"
      by (simp only: rowOutcome_Skipped_iff)
    then show ?thesis using Skipped Cons.IH[of "Suc i"] by simp
  next
    case (Caught e)
    then have "\<not> (rowEdipi h mapping r = [] \<or> getMarineByEdipi st (rowEdipi h mapping r) = None)"
      using rowOutcome_Skipped_iff[of h now mapping qt src st i r] by auto
    then show ?thesis using Caught Cons.IH[of "Suc i"] by simp
  next
    case (Built q)
    then have "\<not> (rowEdipi h mapping r = [] \<or> getMarineByEdipi st (rowEdipi h mapping r) = None)"
      using rowOutcome_Skipped_iff[of h now mapping qt src st i r] by auto
    then show ?thesis using Built Cons.IH[of "Suc i"] by simp
  qed
qed

lemma errorsOf_outcomes:
  assumes "j < length rows"
    and "rowEdipi h mapping (rows ! j) = [] \<or>
         getMarineByEdipi st (rowEdipi h mapping (rows ! j)) = None"
  shows "(if rowEdipi h mapping (rows ! j) = [] then NoEdipi (i + j + 1)
          else MarineNotFound (i + j + 1) (rowEdipi h mapping (rows ! j)))
         \<in> set (errorsOf (outcomes h now mapping qt src st i rows))"
  using assms
proof (induction rows arbitrary: i j)
  case Nil
  then show ?case by simp
next
  case (Cons r rs)
  have sub: "set (errorsOf (outcomes h now mapping qt src st (Suc i) rs))
             \<subseteq> set (errorsOf (outcomes h now mapping qt src st i (r # rs)))"
    by (cases "rowOutcome h now mapping qt src st i r") auto
  show ?case
  proof (cases j)
    case 0
    then show ?thesis
      using Cons.prems(2) rowOutcome_Skipped_error[of h mapping r st now qt src i] by auto
  next
    case (Suc k)
    then have "k < length rs" using Cons.prems(1) by simp
    from Cons.IH[OF this, of "Suc i"] Cons.prems(2) Suc sub show ?thesis by auto
  qed
qed

lemma calculateExpiration_Inl:
  "calculateExpiration tza qt c sep = Inl e \<Longrightarrow> calculateExpiration tza qt c' sep = Inl e"
  by (simp add: calculateExpiration_def Let_def split: cycle.splits option.splits if_splits)

lemma rowOutcome_Built_iff:
  "(\<exists>q. rowOutcome h now mapping qt src st i r = Built q) \<longleftrightarrow>
   rowEdipi h mapping r \<noteq> [] \<and>
   (\<exists>m c. getMarineByEdipi st (rowEdipi h mapping r) = Some m \<and>
      (case findKey (\<lambda>v. v = ''completionDate'' \<or> v = ''date'') mapping of
         None \<Rightarrow> Inr (Some (toISODate now))
       | Some k \<Rightarrow> if k = [] then Inr (Some (toISODate now)) else parseDate h (rowGet r k))
        = Inr c \<and>
      (\<forall>t e. getQualificationType qt = Some t \<longrightarrow>
             calculateExpiration (LocalTZA h) t c (eas m) \<noteq> Inl e))"
  unfolding rowOutcome_def Let_def
  by (auto split: if_splits option.splits sum.splits)

lemma rowOutcome_kind_imp:
  assumes "\<exists>q. rowOutcome h now mapping qt src st i r = Built q"
  shows "\<exists>q. rowOutcome h now' mapping qt src st i r = Built q"
proof -
  let ?D = "\<lambda>n. case findKey (\<lambda>v. v = ''completionDate'' \<or> v = ''date'') mapping of
                   None \<Rightarrow> Inr (Some (toISODate n))
                 | Some k \<Rightarrow> if k = [] then Inr (Some (toISODate n)) else parseDate h (rowGet r k)"
  from assms obtain m c where ne: "rowEdipi h mapping r \<noteq> []"
    and gm: "getMarineByEdipi st (rowEdipi h mapping r) = Some m"
    and d: "?D now = Inr c"
    and ce: "\<forall>t e. getQualificationType qt = Some t \<longrightarrow>
                   calculateExpiration (LocalTZA h) t c (eas m) \<noteq> Inl e"
    unfolding rowOutcome_Built_iff by blast
  obtain c' where d': "?D now' = Inr c'"
    using d by (cases "findKey (\<lambda>v. v = ''completionDate'' \<or> v = ''date'') mapping")
      (auto split: if_splits)
  have "\<forall>t e. getQualificationType qt = Some t \<longrightarrow>
               calculateExpiration (LocalTZA h) t c' (eas m) \<noteq> Inl e"
    using ce calculateExpiration_Inl by blast
  then show ?thesis
    unfolding rowOutcome_Built_iff using ne gm d' by blast
qed

lemma rowOutcome_kind:
  "(\<exists>q. rowOutcome h now mapping qt src st i r = Built q) \<longleftrightarrow>
   (\<exists>q. rowOutcome h now' mapping qt src st i r = Built q)"
  using rowOutcome_kind_imp[of h now mapping qt src st i r now']
        rowOutcome_kind_imp[of h now' mapping qt src st i r now]
  by blast

lemma length_builtOf_outcomes:
  "length (builtOf (outcomes h now mapping qt src st i rows)) =
   length (builtOf (outcomes h now' mapping qt src st i rows))"
proof (induction rows arbitrary: i)
  case Nil
  show ?case by simp
next
  case (Cons r rs)
  show ?case
  proof (cases "\<exists>q. rowOutcome h now mapping qt src st i r = Built q")
    case True
    then obtain q where q: "rowOutcome h now mapping qt src st i r = Built q" by blast
    from True obtain q' where q': "rowOutcome h now' mapping qt src st i r = Built q'"
      using rowOutcome_kind_imp by blast
    show ?thesis using q q' Cons.IH[of "Suc i"] by simp
  next
    case False
    then have a: "builtOf (outcomes h now mapping qt src st i (r # rs))
                  = builtOf (outcomes h now mapping qt src st (Suc i) rs)"
      by (cases "rowOutcome h now mapping qt src st i r") auto
    from False have "\<not> (\<exists>q. rowOutcome h now' mapping qt src st i r = Built q)"
      using rowOutcome_kind_imp by blast
    then have b: "builtOf (outcomes h now' mapping qt src st i (r # rs))
                  = builtOf (outcomes h now' mapping qt src st (Suc i) rs)"
      by (cases "rowOutcome h now' mapping qt src st i r") auto
    show ?thesis unfolding a b by (rule Cons.IH)
  qed
qed

lemma outcomes_same_clock:
  assumes "findKey (\<lambda>v. v = ''completionDate'' \<or> v = ''date'') mapping = Some c" "c \<noteq> []"
  shows "outcomes h now mapping qt src st i rows = outcomes h now' mapping qt src st i rows"
proof (induction rows arbitrary: i)
  case Nil
  show ?case by simp
next
  case (Cons r rs)
  have "rowOutcome h now mapping qt src st i r = rowOutcome h now' mapping qt src st i r"
    using assms by (auto simp: rowOutcome_def Let_def split: option.splits)
  then show ?case using Cons.IH[of "Suc i"] by simp
qed

lemma stored_ids:
  "x \<in> set (stored now k qs) \<Longrightarrow> \<exists>j. q_id x = Some j \<and> j < k + length qs"
  by (induction qs arbitrary: k) fastforce+

lemma wfQualifications_run:
  assumes "wfQualifications st"
  shows "wfQualifications
           (st\<lparr>qualifications := qualifications st @ stored now (qualificationKey st) qs,
               qualificationKey := qualificationKey st + length qs\<rparr>)"
  using assms stored_ids[of _ now "qualificationKey st" qs]
  by (fastforce simp: wfQualifications_def)

lemma importQualifications_effect:
  assumes "wfQualifications st"
  shows "importQualifications h now rows mapping qt src st =
         (\<lparr>total = length rows,
           added = length (builtOf (outcomes h now mapping qt src st 0 rows)),
           updated = 0,
           skipped = skippedOf (outcomes h now mapping qt src st 0 rows),
           errors = errorsOf (outcomes h now mapping qt src st 0 rows)\<rparr>,
          logImport now
            \<lparr>ir_type = ''qualifications'', ir_qualificationType = qt,
             ir_source = (if src = [] then ''file_import'' else src),
             ir_total = length rows,
             ir_added = length (builtOf (outcomes h now mapping qt src st 0 rows)),
             ir_skipped = skippedOf (outcomes h now mapping qt src st 0 rows),
             ir_errorCount = length (errorsOf (outcomes h now mapping qt src st 0 rows)),
             ir_timestamp = now\<rparr>
            (st\<lparr>qualifications :=
                   qualifications st @
                   stored now (qualificationKey st) (builtOf (outcomes h now mapping qt src st 0 rows)),
                qualificationKey :=
                   qualificationKey st + length (builtOf (outcomes h now mapping qt src st 0 rows))\<rparr>))"
  unfolding importQualifications_def Let_def
  by (simp add: importQualificationRows_effect[OF assms])

lemma rowOutcome_Built_owner:
  assumes "rowOutcome h now mapping qt src st i r = Built q"
  shows "\<exists>m. rowEdipi h mapping r \<noteq> [] \<and>
             getMarineByEdipi st (rowEdipi h mapping r) = Some m \<and> marineId q = m_id m"
  using assms unfolding rowOutcome_def Let_def
  by (auto split: if_splits option.splits sum.splits)

lemma builtOf_outcomes_owner:
  assumes "q \<in> set (builtOf (outcomes h now mapping qt src st i rows))"
  shows "\<exists>r \<in> set rows. \<exists>m. rowEdipi h mapping r \<noteq> [] \<and>
                               getMarineByEdipi st (rowEdipi h mapping r) = Some m \<and>
                               marineId q = m_id m"
  using assms
proof (induction rows arbitrary: i)
  case Nil
  then show ?case by simp
next
  case (Cons r rs)
  show ?case
  proof (cases "rowOutcome h now mapping qt src st i r")
    case (Built q')
    then show ?thesis
      using Cons.prems Cons.IH[of "Suc i"] rowOutcome_Built_owner[OF Built] by auto
  qed (use Cons.prems Cons.IH[of "Suc i"] in auto)
qed

lemma wfQualifications_logImport: "wfQualifications (logImport now r st) = wfQualifications st"
  by (simp add: wfQualifications_def logImport_def)

lemma length_outcomes: "length (outcomes h now mapping qt src st i rows) = length rows"
  by (induction rows arbitrary: i) simp_all

lemma outcomes_nth:
  "i < length rows \<Longrightarrow>
   outcomes h now mapping qt src st k rows ! i = rowOutcome h now mapping qt src st (k + i) (rows ! i)"
proof (induction rows arbitrary: i k)
  case Nil
  then show ?case by simp
next
  case (Cons r rs)
  show ?case
  proof (cases i)
    case 0
    then show ?thesis by simp
  next
    case (Suc j)
    then have "j < length rs" using Cons.prems by simp
    from Cons.IH[OF this, of "Suc k"] Suc show ?thesis by simp
  qed
qed

lemma length_errorsOf_builtOf: "length (builtOf os) + length (errorsOf os) = length os"
  by (induction os rule: builtOf.induct) simp_all

text \<open>
  The identifier of a row, written out: the digits of the cell in the first column
  that the mapping sends to \<^verbatim>\<open>edipi\<close>; and the Marine that it finds in the store.
\<close>

lemma rowEdipi_mapped:
  "rowEdipi h mapping r =
   (case find (\<lambda>k. map_of mapping k = Some ''edipi'') (map fst mapping) of
      None \<Rightarrow> []
    | Some k \<Rightarrow> if k = [] then [] else filter isDigit (jsString h (rowGet r k)))"
proof -
  have "(\<lambda>k. case map_of mapping k of None \<Rightarrow> False | Some v \<Rightarrow> v = ''edipi'')
        = (\<lambda>k. map_of mapping k = Some ''edipi'')"
    by (rule ext) (simp split: option.splits)
  then show ?thesis by (simp add: rowEdipi_def findKey_def Let_def)
qed

lemma getMarineByEdipi_None:
  "getMarineByEdipi st e = None \<longleftrightarrow> (\<forall>m \<in> set (marines st). edipi m \<noteq> Some e)"
  by (auto simp: getMarineByEdipi_def find_None_iff)

lemma getMarineByEdipi_Some:
  "getMarineByEdipi st e = Some m \<Longrightarrow> m \<in> set (marines st) \<and> edipi m = Some e"
  by (auto simp: getMarineByEdipi_def find_Some_iff)

lemma importQualifications_runs:
  fixes st :: "'m store"
  assumes wf: "wfQualifications st"
  shows
   "let run1 = importQualifications h now rows mapping qt src st;
        run2 = importQualifications h now' rows mapping qt src (snd run1);
        B = builtOf (outcomes h now mapping qt src st 0 rows);
        B' = builtOf (outcomes h now' mapping qt src st 0 rows);
        k = qualificationKey st
    in updated (fst run1) = 0 \<and> updated (fst run2) = 0 \<and>
       total (fst run1) = length rows \<and>
       skipped (fst run1) =
         length (filter (\<lambda>r. rowEdipi h mapping r = [] \<or>
                              getMarineByEdipi st (rowEdipi h mapping r) = None) rows) \<and>
       (\<forall>i < length rows.
          rowEdipi h mapping (rows ! i) = [] \<or>
          getMarineByEdipi st (rowEdipi h mapping (rows ! i)) = None \<longrightarrow>
          (if rowEdipi h mapping (rows ! i) = [] then NoEdipi (i + 1)
           else MarineNotFound (i + 1) (rowEdipi h mapping (rows ! i)))
          \<in> set (errors (fst run1))) \<and>
       added (fst run1) = length B \<and>
       length B + length (errors (fst run1)) = length rows \<and>
       marines (snd run1) = marines st \<and>
       qualifications (snd run1) = qualifications st @ stored now k B \<and>
       (\<forall>q \<in> set B. \<exists>r \<in> set rows. \<exists>m.
          rowEdipi h mapping r \<noteq> [] \<and>
          getMarineByEdipi st (rowEdipi h mapping r) = Some m \<and> marineId q = m_id m) \<and>
       added (fst run2) = added (fst run1) \<and>
       qualifications (snd run2) =
         qualifications st @ stored now k B @ stored now' (k + length B) B' \<and>
       ((\<exists>c. findKey (\<lambda>v. v = ''completionDate'' \<or> v = ''date'') mapping = Some c \<and> c \<noteq> [])
        \<or> now' = now \<longrightarrow> B' = B)"
proof -
  define os where "os = outcomes h now mapping qt src st 0 rows"
  define B where "B = builtOf os"
  define B' where "B' = builtOf (outcomes h now' mapping qt src st 0 rows)"
  define k where "k = qualificationKey st"
  define st1 where "st1 = st\<lparr>qualifications := qualifications st @ stored now k B,
                              qualificationKey := k + length B\<rparr>"
  define run1 where "run1 = importQualifications h now rows mapping qt src st"
  define run2 where "run2 = importQualifications h now' rows mapping qt src (snd run1)"
  have r1: "run1 = (\<lparr>total = length rows, added = length B, updated = 0,
                     skipped = skippedOf os, errors = errorsOf os\<rparr>,
                    logImport now
                      \<lparr>ir_type = ''qualifications'', ir_qualificationType = qt,
                       ir_source = (if src = [] then ''file_import'' else src),
                       ir_total = length rows, ir_added = length B,
                       ir_skipped = skippedOf os, ir_errorCount = length (errorsOf os),
                       ir_timestamp = now\<rparr> st1)"
    unfolding run1_def importQualifications_effect[OF wf] os_def B_def k_def st1_def ..
  have s1: "marines (snd run1) = marines st"
    "qualifications (snd run1) = qualifications st @ stored now k B"
    "qualificationKey (snd run1) = k + length B"
    by (simp_all add: r1 logImport_def st1_def)
  have wf1: "wfQualifications (snd run1)"
    using wfQualifications_run[OF wf, where now=now and qs=B]
    by (simp add: r1 wfQualifications_logImport st1_def k_def)
  have o2: "outcomes h now' mapping qt src (snd run1) 0 rows
            = outcomes h now' mapping qt src st 0 rows"
    by (rule outcomes_marines[OF s1(1)])
  have r2: "fst run2 = \<lparr>total = length rows, added = length B', updated = 0,
                        skipped = skippedOf (outcomes h now' mapping qt src st 0 rows),
                        errors = errorsOf (outcomes h now' mapping qt src st 0 rows)\<rparr>"
    "qualifications (snd run2) =
       qualifications (snd run1) @ stored now' (qualificationKey (snd run1)) B'"
    unfolding run2_def importQualifications_effect[OF wf1] o2 B'_def
    by (simp_all add: logImport_def)
  have len: "length B' = length B"
    unfolding B_def B'_def os_def by (rule length_builtOf_outcomes)
  have cnt: "length B + length (errorsOf os) = length rows"
    unfolding B_def using length_errorsOf_builtOf[of os] by (simp add: os_def length_outcomes)
  have same: "B' = B"
    if "(\<exists>c. findKey (\<lambda>v. v = ''completionDate'' \<or> v = ''date'') mapping = Some c \<and> c \<noteq> [])
        \<or> now' = now"
  proof (cases "now' = now")
    case True
    then show ?thesis by (simp add: B_def B'_def os_def)
  next
    case False
    with that obtain c
      where "findKey (\<lambda>v. v = ''completionDate'' \<or> v = ''date'') mapping = Some c" "c \<noteq> []"
      by blast
    from outcomes_same_clock[OF this, of h now' qt src st 0 rows now]
    show ?thesis by (simp add: B_def B'_def os_def)
  qed
  have sk: "skipped (fst run1) =
            length (filter (\<lambda>r. rowEdipi h mapping r = [] \<or>
                                 getMarineByEdipi st (rowEdipi h mapping r) = None) rows)"
    by (simp add: r1 os_def skippedOf_outcomes)
  have er: "\<forall>i < length rows.
          rowEdipi h mapping (rows ! i) = [] \<or>
          getMarineByEdipi st (rowEdipi h mapping (rows ! i)) = None \<longrightarrow>
          (if rowEdipi h mapping (rows ! i) = [] then NoEdipi (i + 1)
           else MarineNotFound (i + 1) (rowEdipi h mapping (rows ! i)))
          \<in> set (errors (fst run1))"
  proof (intro allI impI)
    fix i
    assume i: "i < length rows"
      and u: "rowEdipi h mapping (rows ! i) = [] \<or>
              getMarineByEdipi st (rowEdipi h mapping (rows ! i)) = None"
    from errorsOf_outcomes[OF i u, of 0 now qt src]
    show "(if rowEdipi h mapping (rows ! i) = [] then NoEdipi (i + 1)
           else MarineNotFound (i + 1) (rowEdipi h mapping (rows ! i)))
          \<in> set (errors (fst run1))"
      by (simp add: r1 os_def split: if_splits)
  qed
  have ow: "\<forall>q \<in> set B. \<exists>r \<in> set rows. \<exists>m.
          rowEdipi h mapping r \<noteq> [] \<and>
          getMarineByEdipi st (rowEdipi h mapping r) = Some m \<and> marineId q = m_id m"
    unfolding B_def os_def using builtOf_outcomes_owner by blast
  have "updated (fst run1) = 0 \<and> updated (fst run2) = 0 \<and>
       total (fst run1) = length rows \<and>
       skipped (fst run1) =
         length (filter (\<lambda>r. rowEdipi h mapping r = [] \<or>
                              getMarineByEdipi st (rowEdipi h mapping r) = None) rows) \<and>
       (\<forall>i < length rows.
          rowEdipi h mapping (rows ! i) = [] \<or>
          getMarineByEdipi st (rowEdipi h mapping (rows ! i)) = None \<longrightarrow>
          (if rowEdipi h mapping (rows ! i) = [] then NoEdipi (i + 1)
           else MarineNotFound (i + 1) (rowEdipi h mapping (rows ! i)))
          \<in> set (errors (fst run1))) \<and>
       added (fst run1) = length B \<and>
       length B + length (errors (fst run1)) = length rows \<and>
       marines (snd run1) = marines st \<and>
       qualifications (snd run1) = qualifications st @ stored now k B \<and>
       (\<forall>q \<in> set B. \<exists>r \<in> set rows. \<exists>m.
          rowEdipi h mapping r \<noteq> [] \<and>
          getMarineByEdipi st (rowEdipi h mapping r) = Some m \<and> marineId q = m_id m) \<and>
       added (fst run2) = added (fst run1) \<and>
       qualifications (snd run2) =
         qualifications st @ stored now k B @ stored now' (k + length B) B' \<and>
       ((\<exists>c. findKey (\<lambda>v. v = ''completionDate'' \<or> v = ''date'') mapping = Some c \<and> c \<noteq> [])
        \<or> now' = now \<longrightarrow> B' = B)"
    using sk er ow same len s1 cnt by (simp add: r1 r2)
  then show ?thesis
    unfolding Let_def run1_def run2_def B_def B'_def os_def k_def .
qed

subsection \<open>The sample imports\<close>

lemma example_wf: "wfQualifications exampleStore"
  by (simp add: wfQualifications_def exampleStore_def)

lemma example_rowEdipi:
  "rowEdipi exampleHost exampleMapping [(''EDIPI'', Str ''1234567890''), (''Date'', Str [])]
     = ''1234567890''"
  "rowEdipi exampleHost exampleMapping [(''EDIPI'', Str ''999''), (''Date'', Str ''2024-10-02'')]
     = ''999''"
  by code_simp+

lemma example_getMarine:
  "getMarineByEdipi exampleStore ''1234567890'' = Some exampleMarine"
  "getMarineByEdipi exampleStore ''999'' = None"
  by code_simp+

lemma example_outcomes:
  "outcomes exampleHost now exampleMapping ''rifle_qual'' [] exampleStore 0 exampleRows =
     [Built \<lparr>q_id = None, marineId = Some 1, q_type = ''rifle_qual'', completionDate = None,
             expirationDate = Some (newDateYMD (fixedZone (- 4 * msPerHour)) 1971 8 30), score = None,
             q_source = ''import'', q_createdAt = None, q_updatedAt = None\<rparr>,
      Skipped (MarineNotFound 2 ''999'')]"
proof -
  have f: "findKey (\<lambda>v. v = ''completionDate'' \<or> v = ''date'') exampleMapping = Some ''Date''"
    "findKey (\<lambda>v. v = ''score'') exampleMapping = None"
    by code_simp+
  have g: "rowGet [(''EDIPI'', Str ''1234567890''), (''Date'', Str [])] ''Date'' = Str []"
    by code_simp
  have p: "parseDate h' (Str []) = Inr None" for h'
    by (simp add: parseDate_def falsy_def)
  have t: "getQualificationType ''rifle_qual'' = Some (mkType ''rifle_qual'' FISCAL_YEAR)"
    by code_simp
  have c: "calculateExpiration (LocalTZA exampleHost) (mkType ''rifle_qual'' FISCAL_YEAR) None
             (eas exampleMarine) = Inr (Some (newDateYMD (fixedZone (- 4 * msPerHour)) 1971 8 30))"
    by code_simp
  have m: "m_id exampleMarine = Some 1" by (simp add: exampleMarine_def)
  have a: "rowOutcome exampleHost now exampleMapping ''rifle_qual'' [] exampleStore 0
             [(''EDIPI'', Str ''1234567890''), (''Date'', Str [])]
           = Built \<lparr>q_id = None, marineId = Some 1, q_type = ''rifle_qual'', completionDate = None,
               expirationDate = Some (newDateYMD (fixedZone (- 4 * msPerHour)) 1971 8 30), score = None,
               q_source = ''import'', q_createdAt = None, q_updatedAt = None\<rparr>"
    by (simp add: rowOutcome_def Let_def example_rowEdipi example_getMarine f g p t c m)
  have b: "rowOutcome exampleHost now exampleMapping ''rifle_qual'' [] exampleStore (Suc 0)
             [(''EDIPI'', Str ''999''), (''Date'', Str ''2024-10-02'')]
           = Skipped (MarineNotFound 2 ''999'')"
    by (simp add: rowOutcome_def Let_def example_rowEdipi example_getMarine)
  show ?thesis by (simp add: exampleRows_def a b)
qed

text \<open>
  The rows of the roster import: the identifiers that the column \<^verbatim>\<open>DoD ID\<close> yields,
  and the one record built, for the Marine with the identifier of the second row.
\<close>

lemma roster_ident:
  "find (\<lambda>k. map_of rosterMapping k = Some ''edipi'') (map fst rosterMapping) = Some ''DoD ID''"
  "filter isDigit (jsString exampleHost (rowGet (rosterRows ! 0) ''DoD ID'')) = ''0000000001''"
  "filter isDigit (jsString exampleHost (rowGet (rosterRows ! Suc 0) ''DoD ID'')) = ''1234567890''"
  "filter isDigit (jsString exampleHost (rowGet (rosterRows ! 2) ''DoD ID'')) = []"
  by code_simp+

lemma roster_outcomes:
  "outcomes exampleHost now rosterMapping ''rifle_qual'' [] exampleStore 0 rosterRows =
     [Skipped (MarineNotFound 1 ''0000000001''),
      Built \<lparr>q_id = None, marineId = Some 1, q_type = ''rifle_qual'',
             completionDate = Some (IsoDate 2024 10 2),
             expirationDate = Some (newDateYMD (fixedZone (- 4 * msPerHour)) 2026 8 30),
             score = Some 285, q_source = ''import'', q_createdAt = None, q_updatedAt = None\<rparr>,
      Skipped (NoEdipi 3)]"
proof -
  have r: "rosterRows = [rosterRows ! 0, rosterRows ! Suc 0, rosterRows ! 2]"
    by (simp add: rosterRows_def)
  have e: "rowEdipi exampleHost rosterMapping (rosterRows ! 0) = ''0000000001''"
    "rowEdipi exampleHost rosterMapping (rosterRows ! Suc 0) = ''1234567890''"
    "rowEdipi exampleHost rosterMapping (rosterRows ! 2) = []"
    by (simp_all add: rowEdipi_mapped roster_ident)
  have g: "getMarineByEdipi exampleStore ''0000000001'' = None" by code_simp
  have f: "findKey (\<lambda>v. v = ''completionDate'' \<or> v = ''date'') rosterMapping = Some ''Completed''"
    "findKey (\<lambda>v. v = ''score'') rosterMapping = Some ''Score''"
    by code_simp+
  have c: "rowGet (rosterRows ! Suc 0) ''Completed'' = Str ''10/02/2024''"
    "rowGet (rosterRows ! Suc 0) ''Score'' = Num 285"
    by code_simp+
  have t: "trim ''10/02/2024'' = ''10/02/2024''" by code_simp
  have m: "matchISO ''10/02/2024'' = None" "matchUS ''10/02/2024'' = Some (''10'', ''02'', ''2024'')"
    by code_simp+
  have n: "toNumber ''10'' = 10" "toNumber ''02'' = 2" "toNumber ''2024'' = 2024" by code_simp+
  have d: "toISODate (newDateYMD (LocalTZA exampleHost) 2024 9 2) = IsoDate 2024 10 2"
    by code_simp
  have p: "parseDate exampleHost (Str ''10/02/2024'') = Inr (Some (IsoDate 2024 10 2))"
    by (simp add: parseDate_def falsy_def jsString_def t m n d Let_def)
  have s: "parseInt (jsString exampleHost (Num 285)) = Some 285" by code_simp
  have q: "getQualificationType ''rifle_qual'' = Some (mkType ''rifle_qual'' FISCAL_YEAR)"
    by code_simp
  have x: "calculateExpiration (LocalTZA exampleHost) (mkType ''rifle_qual'' FISCAL_YEAR)
             (Some (IsoDate 2024 10 2)) (eas exampleMarine)
           = Inr (Some (newDateYMD (fixedZone (- 4 * msPerHour)) 2026 8 30))"
    by code_simp
  have i: "m_id exampleMarine = Some 1" by (simp add: exampleMarine_def)
  have a: "rowOutcome exampleHost now rosterMapping ''rifle_qual'' [] exampleStore 0 (rosterRows ! 0)
           = Skipped (MarineNotFound 1 ''0000000001'')"
    by (simp add: rowOutcome_def Let_def e g)
  have b: "rowOutcome exampleHost now rosterMapping ''rifle_qual'' [] exampleStore (Suc 0)
             (rosterRows ! Suc 0)
           = Built \<lparr>q_id = None, marineId = Some 1, q_type = ''rifle_qual'',
               completionDate = Some (IsoDate 2024 10 2),
               expirationDate = Some (newDateYMD (fixedZone (- 4 * msPerHour)) 2026 8 30),
               score = Some 285, q_source = ''import'', q_createdAt = None, q_updatedAt = None\<rparr>"
    by (simp add: rowOutcome_def Let_def e example_getMarine f c p s q x i)
  have k: "rowOutcome exampleHost now rosterMapping ''rifle_qual'' [] exampleStore (Suc (Suc 0))
             (rosterRows ! 2)
           = Skipped (NoEdipi 3)"
    by (simp add: rowOutcome_def Let_def e)
  have "outcomes exampleHost now rosterMapping ''rifle_qual'' [] exampleStore 0
          [rosterRows ! 0, rosterRows ! Suc 0, rosterRows ! 2] =
     [Skipped (MarineNotFound 1 ''0000000001''),
      Built \<lparr>q_id = None, marineId = Some 1, q_type = ''rifle_qual'',
             completionDate = Some (IsoDate 2024 10 2),
             expirationDate = Some (newDateYMD (fixedZone (- 4 * msPerHour)) 2026 8 30),
             score = Some 285, q_source = ''import'', q_createdAt = None, q_updatedAt = None\<rparr>,
      Skipped (NoEdipi 3)]"
    by (simp add: a b k)
  then show ?thesis using r by simp
qed

text \<open>
  Claim C7. Qualification import finds the owning Marine only through the mapped
  identifier column, never by name. The identifier of a row is the digits of its cell in
  the first column that the mapping sends to \<^verbatim>\<open>edipi\<close>; a row is unmatched when it has
  no such digits or no Marine of the store has them as \<^verbatim>\<open>edipi\<close>. A row is skipped
  exactly when it is unmatched, whatever its other cells hold, and an error is recorded
  for it; every row either records an error or adds a record; a record built from a row
  belongs to the Marine whose \<^verbatim>\<open>edipi\<close> is the identifier of that row, and is appended
  to the store under a new key; \<open>updated\<close> stays 0; and importing the same rows again
  appends as many records again, equal to the first ones except for key and time stamps
  (when a date column is mapped or the clock stands still). The store is one whose
  qualification keys are below the next key of its generator.
\<close>

theorem importQualifications_append_only:
  fixes st :: "'m store"
  assumes wf: "wfQualifications st"
  shows
   "let run1 = importQualifications h now rows mapping qt src st;
        run2 = importQualifications h now' rows mapping qt src (snd run1);
        column = find (\<lambda>k. map_of mapping k = Some ''edipi'') (map fst mapping);
        ident = (\<lambda>r. case column of
                        None \<Rightarrow> []
                      | Some k \<Rightarrow> if k = [] then [] else filter isDigit (jsString h (rowGet r k)));
        unmatched = (\<lambda>r. ident r = [] \<or> (\<forall>m \<in> set (marines st). edipi m \<noteq> Some (ident r)));
        os = outcomes h now mapping qt src st 0 rows;
        B = builtOf os;
        B' = builtOf (outcomes h now' mapping qt src st 0 rows);
        k = qualificationKey st
    in updated (fst run1) = 0 \<and> updated (fst run2) = 0 \<and>
       total (fst run1) = length rows \<and>
       skipped (fst run1) = length (filter unmatched rows) \<and>
       (\<forall>i < length rows. (\<exists>e. os ! i = Skipped e) \<longleftrightarrow> unmatched (rows ! i)) \<and>
       (\<forall>i < length rows.
          unmatched (rows ! i) \<longrightarrow>
          (if ident (rows ! i) = [] then NoEdipi (i + 1)
           else MarineNotFound (i + 1) (ident (rows ! i)))
          \<in> set (errors (fst run1))) \<and>
       (\<forall>i < length rows. \<forall>q.
          os ! i = Built q \<longrightarrow>
          (\<exists>m. find (\<lambda>m. edipi m = Some (ident (rows ! i))) (marines st) = Some m \<and>
               marineId q = m_id m)) \<and>
       added (fst run1) = length B \<and>
       length B + length (errors (fst run1)) = length rows \<and>
       marines (snd run1) = marines st \<and>
       qualifications (snd run1) = qualifications st @ stored now k B \<and>
       (\<forall>q \<in> set B. \<exists>r \<in> set rows. \<exists>m \<in> set (marines st).
          ident r \<noteq> [] \<and> edipi m = Some (ident r) \<and> marineId q = m_id m) \<and>
       added (fst run2) = added (fst run1) \<and>
       qualifications (snd run2) =
         qualifications st @ stored now k B @ stored now' (k + length B) B' \<and>
       ((\<exists>c. findKey (\<lambda>v. v = ''completionDate'' \<or> v = ''date'') mapping = Some c \<and> c \<noteq> [])
        \<or> now' = now \<longrightarrow> B' = B)"
proof -
  define ident where "ident r =
     (case find (\<lambda>k. map_of mapping k = Some ''edipi'') (map fst mapping) of
        None \<Rightarrow> []
      | Some k \<Rightarrow> if k = [] then [] else filter isDigit (jsString h (rowGet r k)))" for r
  define os where "os = outcomes h now mapping qt src st 0 rows"
  define B where "B = builtOf os"
  have id: "rowEdipi h mapping r = ident r" for r
    unfolding ident_def by (rule rowEdipi_mapped)
  note R = importQualifications_runs[OF wf, of h now rows mapping qt src now',
      unfolded Let_def id getMarineByEdipi_None, folded os_def, folded B_def]
  have ow: "\<forall>q \<in> set B. \<exists>r \<in> set rows. \<exists>m \<in> set (marines st).
              ident r \<noteq> [] \<and> edipi m = Some (ident r) \<and> marineId q = m_id m"
  proof
    fix q
    assume "q \<in> set B"
    then obtain r m where r: "r \<in> set rows" "rowEdipi h mapping r \<noteq> []"
      and m: "getMarineByEdipi st (rowEdipi h mapping r) = Some m" "marineId q = m_id m"
      unfolding B_def os_def using builtOf_outcomes_owner by blast
    from getMarineByEdipi_Some[OF m(1)] r m(2)
    show "\<exists>r \<in> set rows. \<exists>m \<in> set (marines st).
            ident r \<noteq> [] \<and> edipi m = Some (ident r) \<and> marineId q = m_id m"
      unfolding id by blast
  qed
  have sk: "\<forall>i < length rows.
              (\<exists>e. os ! i = Skipped e) \<longleftrightarrow>
              (ident (rows ! i) = [] \<or> (\<forall>m \<in> set (marines st). edipi m \<noteq> Some (ident (rows ! i))))"
  proof (intro allI impI)
    fix i
    assume "i < length rows"
    then have "os ! i = rowOutcome h now mapping qt src st i (rows ! i)"
      unfolding os_def using outcomes_nth[of i rows h now mapping qt src st 0] by simp
    then show "(\<exists>e. os ! i = Skipped e) \<longleftrightarrow>
               (ident (rows ! i) = [] \<or> (\<forall>m \<in> set (marines st). edipi m \<noteq> Some (ident (rows ! i))))"
      using rowOutcome_Skipped_iff[of h now mapping qt src st i "rows ! i"]
      unfolding id getMarineByEdipi_None by simp
  qed
  have bo: "\<forall>i < length rows. \<forall>q.
              os ! i = Built q \<longrightarrow>
              (\<exists>m. find (\<lambda>m. edipi m = Some (ident (rows ! i))) (marines st) = Some m \<and>
                   marineId q = m_id m)"
  proof (intro allI impI)
    fix i q
    assume "i < length rows" and b: "os ! i = Built q"
    then have "rowOutcome h now mapping qt src st i (rows ! i) = Built q"
      unfolding os_def using outcomes_nth[of i rows h now mapping qt src st 0] by simp
    from rowOutcome_Built_owner[OF this]
    show "\<exists>m. find (\<lambda>m. edipi m = Some (ident (rows ! i))) (marines st) = Some m \<and>
              marineId q = m_id m"
      unfolding id getMarineByEdipi_def by blast
  qed
  show ?thesis
    unfolding Let_def
    using R ow sk bo unfolding ident_def B_def os_def by simp
qed

text \<open>
  The roster import: three rows with name columns. The first row carries the name of
  the Marine in the store and an identifier that no Marine has; the second another name
  and, as a number, the identifier of that Marine; the third has no identifier. Only the
  second adds a record, for the Marine with its identifier.
\<close>

theorem importQualifications_append_only_witness:
  "wfQualifications exampleStore \<and>
   updated (fst (importQualifications exampleHost 1730000000000 rosterRows rosterMapping
                   ''rifle_qual'' [] exampleStore)) = 0 \<and>
   added (fst (importQualifications exampleHost 1730000000000 rosterRows rosterMapping
                   ''rifle_qual'' [] exampleStore)) = 1 \<and>
   skipped (fst (importQualifications exampleHost 1730000000000 rosterRows rosterMapping
                   ''rifle_qual'' [] exampleStore)) = 2 \<and>
   MarineNotFound 1 ''0000000001''
     \<in> set (errors (fst (importQualifications exampleHost 1730000000000 rosterRows
                            rosterMapping ''rifle_qual'' [] exampleStore))) \<and>
   NoEdipi 3
     \<in> set (errors (fst (importQualifications exampleHost 1730000000000 rosterRows
                            rosterMapping ''rifle_qual'' [] exampleStore))) \<and>
   map marineId (qualifications (snd (importQualifications exampleHost 1730000000000 rosterRows
                   rosterMapping ''rifle_qual'' [] exampleStore))) = [m_id exampleMarine] \<and>
   map q_id (qualifications (snd (importQualifications exampleHost 1740000000000 rosterRows
             rosterMapping ''rifle_qual'' []
             (snd (importQualifications exampleHost 1730000000000 rosterRows rosterMapping
                     ''rifle_qual'' [] exampleStore))))) = [Some 1, Some 2]"
proof -
  have nz: "(''DoD ID'' = []) = False" by simp
  note T = importQualifications_append_only[OF example_wf, of exampleHost 1730000000000
      rosterRows rosterMapping "''rifle_qual''" "[]" 1740000000000,
      unfolded Let_def roster_ident(1) option.case nz if_False]
  have l: "length rosterRows = 3" by (simp add: rosterRows_def)
  have r: "rosterRows = [rosterRows ! 0, rosterRows ! Suc 0, rosterRows ! 2]"
    by (simp add: rosterRows_def)
  have ms: "marines exampleStore = [exampleMarine]" "edipi exampleMarine = Some ''1234567890''"
    "m_id exampleMarine = Some 1"
    "qualifications exampleStore = []" "qualificationKey exampleStore = 1"
    by (simp_all add: exampleStore_def exampleMarine_def)
  from T have E: "\<forall>i < length rosterRows.
      (filter isDigit (jsString exampleHost (rowGet (rosterRows ! i) ''DoD ID'')) = [] \<or>
       (\<forall>m \<in> set (marines exampleStore).
          edipi m \<noteq> Some (filter isDigit (jsString exampleHost (rowGet (rosterRows ! i) ''DoD ID''))))) \<longrightarrow>
      (if filter isDigit (jsString exampleHost (rowGet (rosterRows ! i) ''DoD ID'')) = []
       then NoEdipi (i + 1)
       else MarineNotFound (i + 1)
              (filter isDigit (jsString exampleHost (rowGet (rosterRows ! i) ''DoD ID''))))
      \<in> set (errors (fst (importQualifications exampleHost 1730000000000 rosterRows
                             rosterMapping ''rifle_qual'' [] exampleStore)))"
    by simp
  from E[rule_format, of 0]
  have e1: "MarineNotFound 1 ''0000000001''
     \<in> set (errors (fst (importQualifications exampleHost 1730000000000 rosterRows
                            rosterMapping ''rifle_qual'' [] exampleStore)))"
    by (simp add: l roster_ident ms)
  from E[rule_format, of 2]
  have e3: "NoEdipi 3
     \<in> set (errors (fst (importQualifications exampleHost 1730000000000 rosterRows
                            rosterMapping ''rifle_qual'' [] exampleStore)))"
    by (simp add: l roster_ident ms)
  have k: "skipped (fst (importQualifications exampleHost 1730000000000 rosterRows rosterMapping
                   ''rifle_qual'' [] exampleStore)) = 2"
  proof -
    from T have "skipped (fst (importQualifications exampleHost 1730000000000 rosterRows
                   rosterMapping ''rifle_qual'' [] exampleStore)) =
      length (filter (\<lambda>r. filter isDigit (jsString exampleHost (rowGet r ''DoD ID'')) = [] \<or>
                (\<forall>m \<in> set (marines exampleStore).
                   edipi m \<noteq> Some (filter isDigit (jsString exampleHost (rowGet r ''DoD ID'')))))
              rosterRows)"
      by simp
    also have "\<dots> = 2"
      by (subst r) (simp add: roster_ident ms)
    finally show ?thesis .
  qed
  have a: "added (fst (importQualifications exampleHost 1730000000000 rosterRows rosterMapping
                   ''rifle_qual'' [] exampleStore)) = 1"
    using T by (simp add: roster_outcomes)
  have o: "map marineId (qualifications (snd (importQualifications exampleHost 1730000000000
                   rosterRows rosterMapping ''rifle_qual'' [] exampleStore))) = [m_id exampleMarine]"
    using T by (simp add: roster_outcomes ms)
  have q: "map q_id (qualifications (snd (importQualifications exampleHost 1740000000000 rosterRows
             rosterMapping ''rifle_qual'' []
             (snd (importQualifications exampleHost 1730000000000 rosterRows rosterMapping
                     ''rifle_qual'' [] exampleStore))))) = [Some 1, Some 2]"
    using T by (simp add: roster_outcomes ms)
  from T have u: "updated (fst (importQualifications exampleHost 1730000000000 rosterRows
                   rosterMapping ''rifle_qual'' [] exampleStore)) = 0"
    by blast
  show ?thesis using example_wf u a k e1 e3 o q by simp
qed

subsection \<open>When the expiration date is null\<close>

lemma calculateExpiration_null_iff:
  "calculateExpiration tza qt c sep = Inr None \<longleftrightarrow>
   cycleType qt = ONE_TIME \<or> cycleType qt = OTHER_CYCLE"
  by (simp add: calculateExpiration_def Let_def split: cycle.splits option.splits)

lemma calculateExpiration_no_completion:
  assumes "cycleType qt = FISCAL_YEAR \<or> cycleType qt = ROLLING"
  shows "\<exists>t. calculateExpiration tza qt None sep = Inr (Some t)"
  using assms by (auto simp: calculateExpiration_def Let_def split: option.splits)

text \<open>
  Claim C5. The expiration date of a record is null iff its type is OneTime or no
  completion date was supplied; in particular an imported row whose date cell does not
  parse must get a null expiration date. The code does not do this: \<open>calculateExpiration\<close>
  never looks whether the completion date is null (\<open>calculateExpiration_null_iff\<close>), and
  \<^verbatim>\<open>new Date(null)\<close> is 1 January 1970. The first row of the sample import, whose date
  cell is empty, yields a rifle qualification with no completion date that expires on
  30 September 1971.
\<close>

theorem import_blank_date_has_expiration:
  "qualifications (snd (importQualifications exampleHost 1730000000000 exampleRows
                          exampleMapping ''rifle_qual'' [] exampleStore))
   = [\<lparr>q_id = Some 1, marineId = Some 1, q_type = ''rifle_qual'', completionDate = None,
        expirationDate = Some (newDateYMD (fixedZone (- 4 * msPerHour)) 1971 8 30), score = None,
        q_source = ''import'', q_createdAt = Some 1730000000000,
        q_updatedAt = Some 1730000000000\<rparr>]"
proof -
  have s: "qualifications exampleStore = []" "qualificationKey exampleStore = 1"
    by (simp_all add: exampleStore_def)
  show ?thesis
    unfolding importQualifications_effect[OF example_wf] example_outcomes
    by (simp add: logImport_def orElse_def s)
qed


section \<open>Backup and restore\<close>

lemma insertMarine_append:
  "\<forall>x \<in> set xs. \<exists>j. m_id x = Some j \<and> j < k \<Longrightarrow> insertMarine k m xs = xs @ [m]"
  by (induction xs) auto

lemma addMarine_fresh:
  assumes inv: "\<forall>x \<in> set (marines st). \<exists>j. m_id x = Some j \<and> j < marineKey st"
    and e: "\<And>e. edipi m = Some e \<Longrightarrow> \<forall>x \<in> set (marines st). edipi x \<noteq> Some e"
  shows "addMarine now (m\<lparr>m_id := None\<rparr>) st =
         Inr (marineKey st,
              st\<lparr>marines := marines st @ storedMarines now (marineKey st) [m],
                 marineKey := Suc (marineKey st)\<rparr>)"
proof -
  have a: "\<not> (\<exists>x \<in> set (marines st). m_id x = Some (marineKey st))" using inv by auto
  have b: "\<not> (case edipi m of None \<Rightarrow> False
               | Some e \<Rightarrow> \<exists>x \<in> set (marines st). edipi x = Some e)"
    using e by (auto split: option.splits)
  show ?thesis
    using a b insertMarine_append[OF inv]
    by (simp add: addMarine_def Let_def)
qed

lemma storedMarines_ids:
  "x \<in> set (storedMarines now k ms) \<Longrightarrow> \<exists>j. m_id x = Some j \<and> j < k + length ms"
  by (induction ms arbitrary: k) fastforce+

lemma storedMarines_edipi:
  "x \<in> set (storedMarines now k ms) \<Longrightarrow> \<exists>m \<in> set ms. edipi x = edipi m"
  by (induction ms arbitrary: k) fastforce+

lemma storedMarines_one_edipi:
  "x \<in> set (storedMarines now k [m]) \<Longrightarrow> edipi x = edipi m"
  by simp

lemma importBackupMarines_effect:
  assumes "\<forall>x \<in> set (marines st). \<exists>j. m_id x = Some j \<and> j < marineKey st"
    and "uniqueEdipi ms"
    and "\<forall>m \<in> set ms. \<forall>e. edipi m = Some e \<longrightarrow> (\<forall>x \<in> set (marines st). edipi x \<noteq> Some e)"
  shows "importBackupMarines now ms (st, idMap, res) =
         (st\<lparr>marines := marines st @ storedMarines now (marineKey st) ms,
             marineKey := marineKey st + length ms\<rparr>,
          newIds (marineKey st) ms idMap,
          res\<lparr>marinesAdded := marinesAdded res + length ms\<rparr>)"
  using assms
proof (induction ms arbitrary: st idMap res)
  case Nil
  show ?case by simp
next
  case (Cons m ms)
  define st' where "st' = st\<lparr>marines := marines st @ storedMarines now (marineKey st) [m],
                   marineKey := Suc (marineKey st)\<rparr>"
  have sel: "marines st' = marines st @ storedMarines now (marineKey st) [m]"
    "marineKey st' = Suc (marineKey st)"
    by (simp_all add: st'_def)
  have e: "\<forall>x \<in> set (marines st). edipi x \<noteq> Some e" if "edipi m = Some e" for e
    using Cons.prems(3) that by simp
  have add: "addMarine now (m\<lparr>m_id := None\<rparr>) st = Inr (marineKey st, st')"
    unfolding st'_def by (rule addMarine_fresh[OF Cons.prems(1) e])
  have i1: "\<forall>x \<in> set (marines st'). \<exists>j. m_id x = Some j \<and> j < marineKey st'"
  proof
    fix x assume "x \<in> set (marines st')"
    then consider "x \<in> set (marines st)" | "x \<in> set (storedMarines now (marineKey st) [m])"
      by (auto simp: sel)
    then show "\<exists>j. m_id x = Some j \<and> j < marineKey st'"
    proof cases
      case 1
      then obtain j where "m_id x = Some j" "j < marineKey st" using Cons.prems(1) by blast
      then show ?thesis by (auto simp: sel)
    next
      case 2
      from storedMarines_ids[OF this] show ?thesis by (simp add: sel)
    qed
  qed
  have i2: "uniqueEdipi ms" using Cons.prems(2) by simp
  have i3: "\<forall>m' \<in> set ms. \<forall>e. edipi m' = Some e \<longrightarrow> (\<forall>x \<in> set (marines st'). edipi x \<noteq> Some e)"
  proof (intro ballI allI impI)
    fix m' e x
    assume m': "m' \<in> set ms" and em: "edipi m' = Some e" and x: "x \<in> set (marines st')"
    from x consider "x \<in> set (marines st)" | "x \<in> set (storedMarines now (marineKey st) [m])"
      by (auto simp: sel)
    then show "edipi x \<noteq> Some e"
    proof cases
      case 1
      have "m' \<in> set (m # ms)" using m' by simp
      from Cons.prems(3)[rule_format, OF this em 1] show ?thesis .
    next
      case 2
      then have ex: "edipi x = edipi m" by (rule storedMarines_one_edipi)
      show ?thesis
      proof
        assume "edipi x = Some e"
        then have "edipi m = Some e" using ex by simp
        then have "\<forall>y \<in> set ms. edipi y \<noteq> Some e" using Cons.prems(2) by simp
        then show False using m' em by blast
      qed
    qed
  qed
  have step: "importBackupMarines now (m # ms) (st, idMap, res) =
              importBackupMarines now ms
                (st', idMap(m_id m \<mapsto> marineKey st), res\<lparr>marinesAdded := marinesAdded res + 1\<rparr>)"
    by (simp add: add Let_def)
  have fin: "st'\<lparr>marines := marines st' @ storedMarines now (marineKey st') ms,
                 marineKey := marineKey st' + length ms\<rparr>
             = st\<lparr>marines := marines st @ storedMarines now (marineKey st) (m # ms),
                   marineKey := marineKey st + length (m # ms)\<rparr>"
    by (simp add: st'_def)
  show ?case
    unfolding step Cons.IH[OF i1 i2 i3] fin by (simp add: sel)
qed

lemma importBackupQualifications_effect:
  assumes "wfQualifications st"
  shows "importBackupQualifications now idMap qs (st, res) =
         (st\<lparr>qualifications :=
                qualifications st @ stored now (qualificationKey st) (remapped idMap qs),
             qualificationKey := qualificationKey st + length (remapped idMap qs)\<rparr>,
          res\<lparr>qualificationsAdded := qualificationsAdded res + length (remapped idMap qs)\<rparr>)"
  using assms
proof (induction qs arbitrary: st res)
  case Nil
  show ?case by simp
next
  case (Cons q qs)
  show ?case
  proof (cases "\<exists>k. idMap (marineId q) = Some k \<and> k \<noteq> 0")
    case False
    then have r: "remapped idMap (q # qs) = remapped idMap qs"
      by (auto split: option.splits)
    have "importBackupQualifications now idMap (q # qs) (st, res)
          = importBackupQualifications now idMap qs (st, res)"
      using False by (auto split: option.splits)
    then show ?thesis unfolding r using Cons.IH[OF Cons.prems] by simp
  next
    case True
    then obtain k where k: "idMap (marineId q) = Some k" "k \<noteq> 0" by blast
    let ?q = "q\<lparr>marineId := Some k, q_id := None\<rparr>"
    let ?st' = "st\<lparr>qualifications := qualifications st @ stored now (qualificationKey st) [?q],
                     qualificationKey := Suc (qualificationKey st)\<rparr>"
    have add: "addQualification now ?q st = Inr (qualificationKey st, ?st')"
      by (rule addQualification_fresh[OF Cons.prems]) simp
    have wf: "wfQualifications ?st'" by (rule wfQualifications_stored[OF Cons.prems])
    show ?thesis
      using Cons.IH[OF wf] add k by simp
  qed
qed

lemma newIds_notin: "o' \<notin> set (map m_id ms) \<Longrightarrow> newIds k ms f o' = f o'"
  by (induction ms arbitrary: k f) auto

lemma newIds_nth:
  "distinct (map m_id ms) \<Longrightarrow> i < length ms \<Longrightarrow> newIds k ms f (m_id (ms ! i)) = Some (k + i)"
proof (induction ms arbitrary: k f i)
  case Nil
  then show ?case by simp
next
  case (Cons m ms)
  show ?case
  proof (cases i)
    case 0
    have "m_id m \<notin> set (map m_id ms)" using Cons.prems(1) by simp
    then show ?thesis using 0 by (simp add: newIds_notin)
  next
    case (Suc j)
    then have "j < length ms" using Cons.prems(2) by simp
    moreover have "distinct (map m_id ms)" using Cons.prems(1) by simp
    ultimately show ?thesis using Cons.IH[of j "Suc k"] Suc by simp
  qed
qed

lemma newIds_positive:
  "newIds k ms f o' = Some v \<Longrightarrow> f o' = Some v \<or> k \<le> v"
proof (induction ms arbitrary: k f)
  case Nil
  then show ?case by simp
next
  case (Cons m ms)
  from Cons.IH[OF Cons.prems[simplified]] show ?case
    by (auto split: if_splits)
qed

lemma remapped_closed_form:
  assumes "\<And>o' v. idMap o' = Some v \<Longrightarrow> v \<noteq> 0"
  shows "remapped idMap qs =
         map (\<lambda>q. q\<lparr>marineId := idMap (marineId q), q_id := None\<rparr>)
             (filter (\<lambda>q. idMap (marineId q) \<noteq> None) qs)"
  using assms by (induction qs) (auto split: option.splits)

lemma storedMarines_nth:
  "i < length ms \<Longrightarrow>
   storedMarines now k ms ! i =
     (ms ! i)\<lparr>m_createdAt := orElse (m_createdAt (ms ! i)) now, m_updatedAt := Some now,
              m_status := (if m_status (ms ! i) = [] then ''present'' else m_status (ms ! i)),
              m_id := Some (k + i)\<rparr>"
proof (induction ms arbitrary: k i)
  case Nil
  then show ?case by simp
next
  case (Cons m ms)
  show ?case
  proof (cases i)
    case 0
    then show ?thesis by simp
  next
    case (Suc j)
    then have "j < length ms" using Cons.prems by simp
    from Cons.IH[OF this, of "Suc k"] Suc show ?thesis by simp
  qed
qed

lemma stored_nth:
  "j < length qs \<Longrightarrow>
   stored now k qs ! j =
     (qs ! j)\<lparr>q_createdAt := orElse (q_createdAt (qs ! j)) now, q_updatedAt := Some now,
              q_id := Some (k + j)\<rparr>"
proof (induction qs arbitrary: k j)
  case Nil
  then show ?case by simp
next
  case (Cons q qs)
  show ?case
  proof (cases j)
    case 0
    then show ?thesis by simp
  next
    case (Suc i)
    then have "i < length qs" using Cons.prems by simp
    from Cons.IH[OF this, of "Suc k"] Suc show ?thesis by simp
  qed
qed

lemma importFromBackup_effect:
  fixes st :: "'m store"
  assumes "uniqueEdipi (marines st)"
  shows "importFromBackup now (exportAllData t st) emptyStore =
         Inr (\<lparr>marinesAdded = length (marines st), marinesErrors = [],
               qualificationsAdded =
                 length (remapped (newIds 1 (marines st) Map.empty) (qualifications st)),
               qualificationsErrors = []\<rparr>,
              \<lparr>marines = storedMarines now 1 (marines st),
               marineKey = 1 + length (marines st),
               qualifications =
                 stored now 1 (remapped (newIds 1 (marines st) Map.empty) (qualifications st)),
               qualificationKey =
                 1 + length (remapped (newIds 1 (marines st) Map.empty) (qualifications st)),
               importHistory = []\<rparr>)"
proof -
  let ?e = "emptyStore :: 'm store"
  have a: "\<forall>x \<in> set (marines ?e). \<exists>j. m_id x = Some j \<and> j < marineKey ?e"
    by (simp add: emptyStore_def)
  have c: "\<forall>m \<in> set (marines st). \<forall>e. edipi m = Some e \<longrightarrow>
             (\<forall>x \<in> set (marines ?e). edipi x \<noteq> Some e)"
    by (simp add: emptyStore_def)
  note m = importBackupMarines_effect[OF a assms c, of now]
  let ?st1 = "?e\<lparr>marines := marines ?e @ storedMarines now (marineKey ?e) (marines st),
                  marineKey := marineKey ?e + length (marines st)\<rparr>"
  have wf: "wfQualifications ?st1" by (simp add: wfQualifications_def emptyStore_def)
  note q = importBackupQualifications_effect[OF wf, of now]
  show ?thesis
    by (simp add: importFromBackup_def exportAllData_def Let_def m q)
       (simp add: emptyStore_def)
qed

lemma example_roster_wf: "wfMarines exampleRoster"
  by (simp add: wfMarines_def exampleRoster_def exampleStore_def exampleMarine_def)

lemma example_roster_fields:
  "marines exampleRoster = [exampleMarine]"
  "qualifications exampleRoster =
     [\<lparr>q_id = Some 1, marineId = Some 1, q_type = ''pft'',
       completionDate = Some (IsoDate 2024 3 15), expirationDate = Some 1751256000000,
       score = Some 285, q_source = ''manual'', q_createdAt = Some 1710000000000,
       q_updatedAt = Some 1710000000000\<rparr>,
      \<lparr>q_id = Some 2, marineId = Some 7, q_type = ''swim_qual'',
       completionDate = Some (IsoDate 2023 5 2), expirationDate = Some 1746144000000,
       score = None, q_source = ''import'', q_createdAt = Some 1690000000000,
       q_updatedAt = Some 1690000000000\<rparr>]"
  by (simp_all add: exampleRoster_def exampleStore_def)

text \<open>
  Claim C6 says that a backup, restored into an empty store, reproduces every record
  with all field values equal except the store-assigned ids. \<open>addMarine\<close> and
  \<open>addQualification\<close> set \<^verbatim>\<open>updatedAt\<close> to the time of the restore: the Marine of the
  sample roster, last updated at 1700000000000, comes back updated at 1730000000000.
\<close>

theorem backup_restore_sets_updatedAt:
  "map m_updatedAt (marines exampleRoster) = [Some 1700000000000] \<and>
   map_sum id (\<lambda>r. map m_updatedAt (marines (snd r)))
     (importFromBackup 1730000000000 (exportAllData 1720000000000 exampleRoster) emptyStore)
   = Inr [Some 1730000000000]"
proof -
  have u: "uniqueEdipi (marines exampleRoster)"
    using example_roster_wf by (simp add: wfMarines_def)
  show ?thesis
    unfolding importFromBackup_effect[OF u] example_roster_fields
    by (simp add: exampleMarine_def)
qed

text \<open>
  Claim C6, amended. For a store whose Marine records carry distinct ids below the
  next key and distinct \<^verbatim>\<open>edipi\<close>s, a backup restored into an empty store succeeds
  without errors and reproduces every Marine record, in order, with all field values
  equal except the id (the new ids count from 1), \<^verbatim>\<open>updatedAt\<close> (the time of the
  restore) and the defaults that \<open>addMarine\<close> fills in for an absent \<^verbatim>\<open>createdAt\<close> or an
  empty \<^verbatim>\<open>status\<close>. The dictionary maps the old id of every Marine to the new id of that
  same Marine and knows no other id. Every qualification whose old Marine id is in the
  dictionary is reproduced, in order, owned by the new id of its Marine, with all
  field values equal except its own id, \<^verbatim>\<open>updatedAt\<close> and the default for an absent
  \<^verbatim>\<open>createdAt\<close>; every other qualification is dropped without an error.
\<close>

theorem backup_round_trip:
  fixes st :: "'m store"
  assumes wf: "wfMarines st"
  shows
   "let ms = marines st;
        dict = newIds 1 ms Map.empty;
        R = map (\<lambda>q. q\<lparr>marineId := dict (marineId q), q_id := None\<rparr>)
                (filter (\<lambda>q. dict (marineId q) \<noteq> None) (qualifications st))
    in importFromBackup now (exportAllData t st) emptyStore =
         Inr (\<lparr>marinesAdded = length ms, marinesErrors = [],
               qualificationsAdded = length R, qualificationsErrors = []\<rparr>,
              \<lparr>marines = storedMarines now 1 ms, marineKey = 1 + length ms,
               qualifications = stored now 1 R, qualificationKey = 1 + length R,
               importHistory = []\<rparr>) \<and>
       (\<forall>i < length ms.
          dict (m_id (ms ! i)) = Some (Suc i) \<and>
          storedMarines now 1 ms ! i =
            (ms ! i)\<lparr>m_createdAt := orElse (m_createdAt (ms ! i)) now, m_updatedAt := Some now,
                     m_status := (if m_status (ms ! i) = [] then ''present''
                                  else m_status (ms ! i)),
                     m_id := Some (Suc i)\<rparr>) \<and>
       (\<forall>old. old \<notin> set (map m_id ms) \<longrightarrow> dict old = None) \<and>
       (\<forall>j < length R.
          stored now 1 R ! j =
            (R ! j)\<lparr>q_createdAt := orElse (q_createdAt (R ! j)) now, q_updatedAt := Some now,
                    q_id := Some (Suc j)\<rparr>)"
proof -
  define ms where "ms = marines st"
  define dict where "dict = newIds 1 ms Map.empty"
  define R where "R = map (\<lambda>q. q\<lparr>marineId := dict (marineId q), q_id := None\<rparr>)
                (filter (\<lambda>q. dict (marineId q) \<noteq> None) (qualifications st))"
  have u: "uniqueEdipi (marines st)" and d: "distinct (map m_id ms)"
    using wf by (simp_all add: wfMarines_def ms_def)
  have pos: "v \<noteq> 0" if "dict o' = Some v" for o' v
    using newIds_positive[of 1 ms Map.empty o' v] that by (auto simp: dict_def)
  have r: "remapped (newIds 1 (marines st) Map.empty) (qualifications st) = R"
    unfolding R_def using remapped_closed_form[of dict "qualifications st"] pos
    by (simp add: dict_def ms_def)
  have 1: "importFromBackup now (exportAllData t st) emptyStore =
         Inr (\<lparr>marinesAdded = length ms, marinesErrors = [],
               qualificationsAdded = length R, qualificationsErrors = []\<rparr>,
              \<lparr>marines = storedMarines now 1 ms, marineKey = 1 + length ms,
               qualifications = stored now 1 R, qualificationKey = 1 + length R,
               importHistory = []\<rparr>)"
    unfolding importFromBackup_effect[OF u] r by (simp add: ms_def)
  have 2: "\<forall>i < length ms.
          dict (m_id (ms ! i)) = Some (Suc i) \<and>
          storedMarines now 1 ms ! i =
            (ms ! i)\<lparr>m_createdAt := orElse (m_createdAt (ms ! i)) now, m_updatedAt := Some now,
                     m_status := (if m_status (ms ! i) = [] then ''present''
                                  else m_status (ms ! i)),
                     m_id := Some (Suc i)\<rparr>"
    using newIds_nth[OF d, of _ 1 Map.empty] storedMarines_nth[of _ ms now 1]
    by (simp add: dict_def)
  have 3: "\<forall>old. old \<notin> set (map m_id ms) \<longrightarrow> dict old = None"
    using newIds_notin[of _ ms 1 Map.empty] by (simp add: dict_def)
  have 4: "\<forall>j < length R.
          stored now 1 R ! j =
            (R ! j)\<lparr>q_createdAt := orElse (q_createdAt (R ! j)) now, q_updatedAt := Some now,
                    q_id := Some (Suc j)\<rparr>"
    using stored_nth[of _ R now 1] by simp
  from 1 2 3 4 show ?thesis
    unfolding Let_def ms_def[symmetric] dict_def[symmetric] R_def[symmetric] by blast
qed

theorem backup_round_trip_witness:
  "wfMarines exampleRoster \<and>
   importFromBackup 1730000000000 (exportAllData 1720000000000 exampleRoster) emptyStore =
     Inr (\<lparr>marinesAdded = 1, marinesErrors = [],
           qualificationsAdded = 1, qualificationsErrors = []\<rparr>,
          \<lparr>marines = [exampleMarine\<lparr>m_updatedAt := Some 1730000000000\<rparr>], marineKey = 2,
           qualifications =
             [\<lparr>q_id = Some 1, marineId = Some 1, q_type = ''pft'',
               completionDate = Some (IsoDate 2024 3 15), expirationDate = Some 1751256000000,
               score = Some 285, q_source = ''manual'', q_createdAt = Some 1710000000000,
               q_updatedAt = Some 1730000000000\<rparr>],
           qualificationKey = 2, importHistory = []\<rparr>)"
proof -
  note T = backup_round_trip[OF example_roster_wf, of 1730000000000 1720000000000,
      unfolded Let_def, THEN conjunct1]
  show ?thesis
    using example_roster_wf T
    by (simp add: example_roster_fields exampleMarine_def orElse_def)
qed

end
